theory Spec2Isabelle
  imports Main "HOL-Library.Monad_Syntax"
begin

section \<open>Text and character classes\<close>

text \<open>
  Python strings are modelled as \<^typ>\<open>string\<close>: lists of characters with code points
  below 256.  Indices and lengths count characters, as Python's do.
\<close>

definition ord :: "char \<Rightarrow> nat" where
  "ord c = of_char c"

text \<open>\<^verbatim>\<open>str.isspace\<close> and the regular-expression class \<^verbatim>\<open>\s\<close> on this range:
  code points 9-13, 28-32, 133 and 160.\<close>

definition is_space :: "char \<Rightarrow> bool" where
  "is_space c = (let n = ord c in
     (9 \<le> n \<and> n \<le> 13) \<or> (28 \<le> n \<and> n \<le> 32) \<or> n = 133 \<or> n = 160)"

text \<open>\<^verbatim>\<open>\d\<close> and the digits of the JSON grammar.\<close>

definition is_digit :: "char \<Rightarrow> bool" where
  "is_digit c = (let n = ord c in 48 \<le> n \<and> n \<le> 57)"

definition is_hex :: "char \<Rightarrow> bool" where
  "is_hex c = (let n = ord c in
     (48 \<le> n \<and> n \<le> 57) \<or> (65 \<le> n \<and> n \<le> 70) \<or> (97 \<le> n \<and> n \<le> 102))"

text \<open>The whitespace of the JSON grammar: space, tab, line feed, carriage return.\<close>

definition json_ws :: "char \<Rightarrow> bool" where
  "json_ws c = (c = CHR '' '' \<or> c = CHR 0x09 \<or> c = CHR 0x0A \<or> c = CHR 0x0D)"

text \<open>\<^verbatim>\<open>str.strip()\<close>: remove leading and trailing whitespace.\<close>

definition lstrip :: "string \<Rightarrow> string" where
  "lstrip s = dropWhile is_space s"

definition rstrip :: "string \<Rightarrow> string" where
  "rstrip s = rev (dropWhile is_space (rev s))"

definition strip :: "string \<Rightarrow> string" where
  "strip s = rstrip (lstrip s)"

section \<open>The standard library's JSON decoder, as a recogniser\<close>

text \<open>
  \<^verbatim>\<open>json.loads\<close> is used by the repository only to decide whether a text parses
  (and, in the prompt-injection adapter, to re-serialise the value).  The recogniser below
  accepts the language of CPython's decoder in its default configuration
  (\<^verbatim>\<open>strict=True\<close>; the constants \<^verbatim>\<open>NaN\<close>, \<^verbatim>\<open>Infinity\<close>, \<^verbatim>\<open>-Infinity\<close> accepted):
  a pushdown automaton reading one character at a time.  Limits of the interpreter
  (recursion depth, the digit limit of integer conversion) are outside the model.
\<close>

datatype container = CObj | CArr

datatype jmode =
    Value                \<comment> \<open>a value must start here\<close>
  | ValueOrEnd           \<comment> \<open>just after \<^verbatim>\<open>[\<close>\<close>
  | KeyOrEnd             \<comment> \<open>just after \<^verbatim>\<open>{\<close>\<close>
  | Key                  \<comment> \<open>after a comma inside an object\<close>
  | Colon                \<comment> \<open>after a property name\<close>
  | After                \<comment> \<open>after a complete value\<close>
  | Str bool             \<comment> \<open>inside a string literal; \<open>True\<close> for a property name\<close>
  | Esc bool             \<comment> \<open>after a backslash inside a string\<close>
  | Hex bool nat         \<comment> \<open>inside \<^verbatim>\<open>\uXXXX\<close>, this many hex digits still read\<close>
  | Lit string           \<comment> \<open>inside a literal name, these characters still expected\<close>
  | NMinus | NZero | NInt | NDot | NFrac | NExp | NExpSign | NExpDigits

type_synonym jstate = "jmode \<times> container list"

fun after_step :: "container list \<Rightarrow> char \<Rightarrow> jstate option" where
  "after_step st c =
     (if json_ws c then Some (After, st)
      else if c = CHR '','' then
        (case st of [] \<Rightarrow> None | CArr # _ \<Rightarrow> Some (Value, st) | CObj # _ \<Rightarrow> Some (Key, st))
      else if c = CHR '']'' then
        (case st of CArr # st' \<Rightarrow> Some (After, st') | _ \<Rightarrow> None)
      else if c = CHR ''}'' then
        (case st of CObj # st' \<Rightarrow> Some (After, st') | _ \<Rightarrow> None)
      else None)"

fun value_step :: "container list \<Rightarrow> char \<Rightarrow> jstate option" where
  "value_step st c =
     (if json_ws c then Some (Value, st)
      else if c = CHR 0x22 then Some (Str False, st)
      else if c = CHR ''{'' then Some (KeyOrEnd, CObj # st)
      else if c = CHR ''['' then Some (ValueOrEnd, CArr # st)
      else if c = CHR ''n'' then Some (Lit ''ull'', st)
      else if c = CHR ''t'' then Some (Lit ''rue'', st)
      else if c = CHR ''f'' then Some (Lit ''alse'', st)
      else if c = CHR ''N'' then Some (Lit ''aN'', st)
      else if c = CHR ''I'' then Some (Lit ''nfinity'', st)
      else if c = CHR ''-'' then Some (NMinus, st)
      else if c = CHR ''0'' then Some (NZero, st)
      else if is_digit c then Some (NInt, st)
      else None)"

fun jstep :: "jstate \<Rightarrow> char \<Rightarrow> jstate option" where
  "jstep (Value, st) c = value_step st c"
| "jstep (ValueOrEnd, st) c =
     (if json_ws c then Some (ValueOrEnd, st)
      else if c = CHR '']'' then after_step st c
      else value_step st c)"
| "jstep (KeyOrEnd, st) c =
     (if json_ws c then Some (KeyOrEnd, st)
      else if c = CHR ''}'' then after_step st c
      else if c = CHR 0x22 then Some (Str True, st)
      else None)"
| "jstep (Key, st) c =
     (if json_ws c then Some (Key, st)
      else if c = CHR 0x22 then Some (Str True, st)
      else None)"
| "jstep (Colon, st) c =
     (if json_ws c then Some (Colon, st)
      else if c = CHR '':'' then Some (Value, st)
      else None)"
| "jstep (After, st) c = after_step st c"
| "jstep (Str k, st) c =
     (if c = CHR 0x22 then Some (if k then Colon else After, st)
      else if c = CHR 0x5C then Some (Esc k, st)
      else if ord c < 32 then None
      else Some (Str k, st))"
| "jstep (Esc k, st) c =
     (if c \<in> set [CHR 0x22, CHR 0x5C, CHR ''/'', CHR ''b'', CHR ''f'', CHR ''n'', CHR ''r'', CHR ''t'']
        then Some (Str k, st)
      else if c = CHR ''u'' then Some (Hex k 4, st)
      else None)"
| "jstep (Hex k n, st) c =
     (if is_hex c then Some (if n \<le> 1 then Str k else Hex k (n - 1), st) else None)"
| "jstep (Lit [], st) c = None"
| "jstep (Lit (x # xs), st) c =
     (if c = x then Some (if xs = [] then After else Lit xs, st) else None)"
| "jstep (NMinus, st) c =
     (if c = CHR ''I'' then Some (Lit ''nfinity'', st)
      else if c = CHR ''0'' then Some (NZero, st)
      else if is_digit c then Some (NInt, st)
      else None)"
| "jstep (NZero, st) c =
     (if c = CHR ''.'' then Some (NDot, st)
      else if c = CHR ''e'' \<or> c = CHR ''E'' then Some (NExp, st)
      else after_step st c)"
| "jstep (NInt, st) c =
     (if is_digit c then Some (NInt, st)
      else if c = CHR ''.'' then Some (NDot, st)
      else if c = CHR ''e'' \<or> c = CHR ''E'' then Some (NExp, st)
      else after_step st c)"
| "jstep (NDot, st) c = (if is_digit c then Some (NFrac, st) else None)"
| "jstep (NFrac, st) c =
     (if is_digit c then Some (NFrac, st)
      else if c = CHR ''e'' \<or> c = CHR ''E'' then Some (NExp, st)
      else after_step st c)"
| "jstep (NExp, st) c =
     (if is_digit c then Some (NExpDigits, st)
      else if c = CHR ''+'' \<or> c = CHR ''-'' then Some (NExpSign, st)
      else None)"
| "jstep (NExpSign, st) c = (if is_digit c then Some (NExpDigits, st) else None)"
| "jstep (NExpDigits, st) c =
     (if is_digit c then Some (NExpDigits, st) else after_step st c)"

fun jrun :: "jstate \<Rightarrow> string \<Rightarrow> jstate option" where
  "jrun s [] = Some s"
| "jrun s (c # cs) = (case jstep s c of None \<Rightarrow> None | Some s' \<Rightarrow> jrun s' cs)"

fun accepting :: "jstate \<Rightarrow> bool" where
  "accepting (m, st) = (st = [] \<and> m \<in> set [After, NZero, NInt, NFrac, NExpDigits])"

text \<open>\<^verbatim>\<open>json.loads(text)\<close> returns (rather than raising \<^verbatim>\<open>JSONDecodeError\<close>).\<close>

definition json_loads_ok :: "string \<Rightarrow> bool" where
  "json_loads_ok text = (case jrun (Value, []) text of None \<Rightarrow> False | Some s \<Rightarrow> accepting s)"


section \<open>The resilient decoder (\<^verbatim>\<open>services/json_helper.py\<close>)\<close>

abbreviation dq :: char where "dq \<equiv> CHR 0x22"
abbreviation bsl :: char where "bsl \<equiv> CHR 0x5C"
abbreviation nl :: char where "nl \<equiv> CHR 0x0A"

subsection \<open>Removing Markdown fences\<close>

text \<open>Matching under \<^verbatim>\<open>re.IGNORECASE\<close>: the patterns of this program contain only
  ASCII letters and signs, which match themselves and their other case.\<close>

definition lower_ascii :: "char \<Rightarrow> char" where
  "lower_ascii c = (let n = ord c in if 65 \<le> n \<and> n \<le> 90 then char_of (n + 32) else c)"

fun starts_with :: "bool \<Rightarrow> string \<Rightarrow> string \<Rightarrow> bool" where
  "starts_with ci [] s = True"
| "starts_with ci (p # ps) [] = False"
| "starts_with ci (p # ps) (c # cs) =
     ((if ci then lower_ascii c = lower_ascii p else c = p) \<and> starts_with ci ps cs)"

text \<open>
  \<^verbatim>\<open>re.sub(r'^```json\s*\n?', '', text, flags=re.MULTILINE | re.IGNORECASE)\<close> and
  \<^verbatim>\<open>re.sub(r'^```\s*\n?', '', text, flags=re.MULTILINE)\<close>.
  The flag \<open>bol\<close> says that the scan is at the start of the text or just after a line
  feed.  The greedy \<^verbatim>\<open>\s*\<close> takes the whole run of whitespace, line feeds included,
  so \<^verbatim>\<open>\n?\<close> is left with nothing.
\<close>

function sub_fence_open :: "bool \<Rightarrow> string \<Rightarrow> bool \<Rightarrow> string \<Rightarrow> string" where
  "sub_fence_open ci pat bol [] = []"
| "sub_fence_open ci pat bol (c # cs) =
     (if bol \<and> pat \<noteq> [] \<and> starts_with ci pat (c # cs) then
        (let rest = drop (length pat) (c # cs);
             ws = takeWhile is_space rest
         in sub_fence_open ci pat (last (c # ws) = nl \<and> ws \<noteq> []) (dropWhile is_space rest))
      else c # sub_fence_open ci pat (c = nl) cs)"
  by pat_completeness auto
termination
proof (relation "measure (\<lambda>(ci, pat, bol, s). length s)")
  fix ci :: bool and pat :: string and bol :: bool and c :: char and cs rest :: string
    and ws :: string
  assume "bol \<and> pat \<noteq> [] \<and> starts_with ci pat (c # cs)"
    and rest: "rest = drop (length pat) (c # cs)"
  then have "length rest < length (c # cs)"
    by (cases pat) auto
  moreover have "length (dropWhile is_space rest) \<le> length rest"
    by (rule length_dropWhile_le)
  ultimately show "((ci, pat, last (c # ws) = nl \<and> ws \<noteq> [], dropWhile is_space rest),
      (ci, pat, bol, c # cs)) \<in> measure (\<lambda>(ci, pat, bol, s). length s)"
    by simp
qed auto

text \<open>
  \<^verbatim>\<open>re.sub(r'\n?```\s*$', '', text, flags=re.MULTILINE)\<close>.  After the three backquotes
  \<^verbatim>\<open>\s*\<close> first takes the whole run of whitespace; \<^verbatim>\<open>$\<close> holds there only at the end
  of the text, otherwise the run is given back up to its last line feed.
  \<open>fence_close s\<close> is the text that follows a match starting at the head of \<open>s\<close>.
\<close>

definition fence_close_at :: "string \<Rightarrow> string option" where
  "fence_close_at s =
     (if starts_with False ''```'' s then
        (let r = drop 3 s; ws = takeWhile is_space r in
         if dropWhile is_space r = [] then Some []
         else if nl \<in> set ws then Some (drop (length ws - length (takeWhile (\<lambda>x. x \<noteq> nl) (rev ws)) - 1) r)
         else None)
      else None)"

definition fence_close :: "string \<Rightarrow> string option" where
  "fence_close s =
     (case s of [] \<Rightarrow> None
      | c # cs \<Rightarrow> if c = nl \<and> fence_close_at cs \<noteq> None then fence_close_at cs else fence_close_at s)"

function sub_fence_close :: "string \<Rightarrow> string" where
  "sub_fence_close [] = []"
| "sub_fence_close (c # cs) =
     (case fence_close (c # cs) of
        Some rest \<Rightarrow> sub_fence_close rest
      | None \<Rightarrow> c # sub_fence_close cs)"
  by pat_completeness auto
termination
proof (relation "measure length")
  fix c :: char and cs rest :: string
  assume m: "fence_close (c # cs) = Some rest"
  have at: "length r < length s" if "fence_close_at s = Some r" for s r
  proof -
    from that have sw: "starts_with False ''```'' s"
      by (auto simp: fence_close_at_def split: if_splits)
    then have "3 \<le> length s"
      by (cases s; cases "tl s"; cases "tl (tl s)") auto
    moreover have "length r \<le> length (drop 3 s)"
      using that sw by (auto simp: fence_close_at_def Let_def split: if_splits)
    ultimately show ?thesis by simp
  qed
  from m have "fence_close_at cs = Some rest \<or> fence_close_at (c # cs) = Some rest"
    by (auto simp: fence_close_def split: if_splits)
  then have "length rest < length (c # cs)"
    using at [of cs rest] at [of "c # cs" rest] by auto
  then show "(rest, c # cs) \<in> measure length" by simp
qed auto

definition strip_markdown :: "string \<Rightarrow> string" where
  "strip_markdown text =
     strip (sub_fence_close (sub_fence_open False ''```'' True (sub_fence_open True ''```json'' True text)))"


subsection \<open>Bracket matching\<close>

text \<open>
  The \<^verbatim>\<open>while i < len(text)\<close> loop of \<^verbatim>\<open>clean_json_response\<close>.  \<open>prev\<close> is the text
  already read, last character first, so that the backslashes just before a quote are
  \<open>takeWhile (\<lambda>x. x = bsl) prev\<close> and \<open>i = length prev\<close>.  The stack is kept in
  Python's order, top last.  The result is the stack, \<open>end\<close> (\<open>None\<close> for the
  source's \<open>-1\<close>) and \<open>in_string\<close>.
\<close>

fun bracket_scan :: "string \<Rightarrow> string \<Rightarrow> string \<Rightarrow> bool \<Rightarrow> string \<times> nat option \<times> bool" where
  "bracket_scan prev [] stack in_string = (stack, None, in_string)"
| "bracket_scan prev (c # cs) stack in_string =
     (if c = dq then
        (if \<not> in_string then bracket_scan (c # prev) cs stack True
         else if even (length (takeWhile (\<lambda>x. x = bsl) prev))
           then bracket_scan (c # prev) cs stack False
         else bracket_scan (c # prev) cs stack in_string)
      else if in_string then bracket_scan (c # prev) cs stack in_string
      else if c = CHR ''{'' \<or> c = CHR ''['' then bracket_scan (c # prev) cs (stack @ [c]) in_string
      else if c = CHR ''}'' then
        (if stack \<noteq> [] \<and> last stack = CHR ''{'' then
           (if butlast stack = [] then (butlast stack, Some (length prev + 1), in_string)
            else bracket_scan (c # prev) cs (butlast stack) in_string)
         else bracket_scan (c # prev) cs stack in_string)
      else if c = CHR '']'' then
        (if stack \<noteq> [] \<and> last stack = CHR ''['' then
           (if butlast stack = [] then (butlast stack, Some (length prev + 1), in_string)
            else bracket_scan (c # prev) cs (butlast stack) in_string)
         else bracket_scan (c # prev) cs stack in_string)
      else bracket_scan (c # prev) cs stack in_string)"

subsection \<open>Closing what is left open\<close>

definition closer :: "char \<Rightarrow> string" where
  "closer b = (if b = CHR ''{'' then ''}'' else if b = CHR ''['' then '']'' else [])"

definition try_fix_unclosed_json :: "string \<Rightarrow> string \<Rightarrow> bool \<Rightarrow> string" where
  "try_fix_unclosed_json text stack in_string =
     (let result = text @ (if in_string then [dq] else []) @ concat (map closer (rev stack))
      in if json_loads_ok result then result else text)"

subsection \<open>The repair strategies\<close>

text \<open>\<^verbatim>\<open>_fix_trailing_content\<close>: \<open>n\<close> is \<open>i + 1\<close> for the loop index \<open>i\<close>.\<close>

fun fix_trailing_from :: "string \<Rightarrow> nat \<Rightarrow> string" where
  "fix_trailing_from text 0 = text"
| "fix_trailing_from text (Suc i) =
     (if (text ! i = CHR ''}'' \<or> text ! i = CHR '']'') \<and> json_loads_ok (take (Suc i) text)
        then take (Suc i) text
      else fix_trailing_from text i)"

definition fix_trailing_content :: "string \<Rightarrow> string" where
  "fix_trailing_content text = fix_trailing_from text (length text)"

text \<open>\<^verbatim>\<open>re.sub(r',\s*([}\]])', r'\1', result)\<close>\<close>

function sub_trailing_comma :: "string \<Rightarrow> string" where
  "sub_trailing_comma [] = []"
| "sub_trailing_comma (c # cs) =
     (if c = CHR '','' then
        (case dropWhile is_space cs of
           d # ds \<Rightarrow> if d = CHR ''}'' \<or> d = CHR '']'' then d # sub_trailing_comma ds
                     else c # sub_trailing_comma cs
         | [] \<Rightarrow> c # sub_trailing_comma cs)
      else c # sub_trailing_comma cs)"
  by pat_completeness auto
termination
proof (relation "measure length")
  fix c :: char and cs ds :: string and d :: char
  assume "dropWhile is_space cs = d # ds"
  then have "length (d # ds) \<le> length cs"
    using length_dropWhile_le [of is_space cs] by simp
  then show "(ds, c # cs) \<in> measure length" by simp
qed auto

text \<open>\<^verbatim>\<open>re.sub(r'([}\]])(\s*)([{\[""])', r'\1,\2\3', result)\<close>\<close>

function sub_missing_comma_after_close :: "string \<Rightarrow> string" where
  "sub_missing_comma_after_close [] = []"
| "sub_missing_comma_after_close (c # cs) =
     (if c = CHR ''}'' \<or> c = CHR '']'' then
        (case dropWhile is_space cs of
           d # ds \<Rightarrow> if d = CHR ''{'' \<or> d = CHR ''['' \<or> d = dq
                     then c # CHR '','' # takeWhile is_space cs @ d # sub_missing_comma_after_close ds
                     else c # sub_missing_comma_after_close cs
         | [] \<Rightarrow> c # sub_missing_comma_after_close cs)
      else c # sub_missing_comma_after_close cs)"
  by pat_completeness auto
termination
proof (relation "measure length")
  fix c :: char and cs ds :: string and d :: char
  assume "dropWhile is_space cs = d # ds"
  then have "length (d # ds) \<le> length cs"
    using length_dropWhile_le [of is_space cs] by simp
  then show "(ds, c # cs) \<in> measure length" by simp
qed auto

text \<open>
  The pattern \<^verbatim>\<open>"(?:[^"\\]|\\.)*"\<close> at the head of a text: the quoted token and what
  follows it.  Without \<^verbatim>\<open>re.DOTALL\<close> the dot does not match a line feed.  The two
  alternatives start with different characters and neither starts with a quote, so the
  token ends at the first quote that is not part of a backslash pair.
\<close>

fun quoted_body :: "string \<Rightarrow> (string \<times> string) option" where
  "quoted_body [] = None"
| "quoted_body [c] = (if c = dq then Some ([c], []) else if c = bsl then None
                      else None)"
| "quoted_body (c # d # ds) =
     (if c = dq then Some ([c], d # ds)
      else if c = bsl then
        (if d = nl then None
         else map_option (\<lambda>(b, r). (c # d # b, r)) (quoted_body ds))
      else map_option (\<lambda>(b, r). (c # b, r)) (quoted_body (d # ds)))"

definition quoted :: "string \<Rightarrow> (string \<times> string) option" where
  "quoted s = (case s of [] \<Rightarrow> None
     | c # cs \<Rightarrow> if c = dq then map_option (\<lambda>(b, r). (c # b, r)) (quoted_body cs) else None)"

text \<open>The pattern \<^verbatim>\<open>("(?:[^"\\]|\\.)*"\s*:)\<close>: a quoted token, whitespace, a colon.\<close>

definition quoted_key :: "string \<Rightarrow> (string \<times> string) option" where
  "quoted_key s =
     (case quoted s of None \<Rightarrow> None
      | Some (q, r) \<Rightarrow>
          (case dropWhile is_space r of
             c # cs \<Rightarrow> if c = CHR '':'' then Some (q @ takeWhile is_space r @ [c], cs) else None
           | [] \<Rightarrow> None))"

text \<open>The tail \<^verbatim>\<open>(\s+)("(?:[^"\\]|\\.)*"\s*:)\<close> shared by the third and fourth
  substitution, with the comma of the replacement \<^verbatim>\<open>\1,\2\3\<close> put in front.\<close>

definition comma_space_key :: "string \<Rightarrow> (string \<times> string) option" where
  "comma_space_key s =
     (if takeWhile is_space s = [] then None
      else case quoted_key (dropWhile is_space s) of None \<Rightarrow> None
        | Some (k, r) \<Rightarrow> Some (CHR '','' # takeWhile is_space s @ k, r))"

text \<open>\<^verbatim>\<open>re.sub(r'("(?:[^"\\]|\\.)*")(\s+)("(?:[^"\\]|\\.)*"\s*:)', r'\1,\2\3', result)\<close>\<close>

definition string_then_key :: "string \<Rightarrow> (string \<times> string) option" where
  "string_then_key s =
     (case quoted s of None \<Rightarrow> None
      | Some (q, r) \<Rightarrow> map_option (\<lambda>(out, r'). (q @ out, r')) (comma_space_key r))"

text \<open>\<^verbatim>\<open>re.sub(r'(\d+|true|false|null)(\s+)("(?:[^"\\]|\\.)*"\s*:)', r'\1,\2\3', result)\<close>:
  \<^verbatim>\<open>\d+\<close> must take the whole run of digits, since whitespace has to follow.\<close>

definition scalar_token :: "string \<Rightarrow> (string \<times> string) option" where
  "scalar_token s =
     (if takeWhile is_digit s \<noteq> [] then Some (takeWhile is_digit s, dropWhile is_digit s)
      else if starts_with False ''true'' s then Some (''true'', drop 4 s)
      else if starts_with False ''false'' s then Some (''false'', drop 5 s)
      else if starts_with False ''null'' s then Some (''null'', drop 4 s)
      else None)"

definition scalar_then_key :: "string \<Rightarrow> (string \<times> string) option" where
  "scalar_then_key s =
     (case scalar_token s of None \<Rightarrow> None
      | Some (q, r) \<Rightarrow> map_option (\<lambda>(out, r'). (q @ out, r')) (comma_space_key r))"

text \<open>\<^verbatim>\<open>re.sub\<close> with a pattern that matches no empty text: at each position the
  leftmost match is replaced and the scan goes on after it.  \<open>m\<close> gives the replacement
  and the text after the match; \<open>skip\<close> counts the characters of a match still to be
  passed over.\<close>

fun sub_with :: "(string \<Rightarrow> (string \<times> string) option) \<Rightarrow> nat \<Rightarrow> string \<Rightarrow> string" where
  "sub_with m skip [] = []"
| "sub_with m (Suc skip) (c # cs) = sub_with m skip cs"
| "sub_with m 0 (c # cs) =
     (case m (c # cs) of
        Some (out, rest) \<Rightarrow> out @ sub_with m (length cs - length rest) cs
      | None \<Rightarrow> c # sub_with m 0 cs)"

text \<open>\<^verbatim>\<open>re.sub(r'[\x00-\x08\x0b\x0c\x0e-\x1f\x7f-\x9f]', '', result)\<close>\<close>

definition is_control :: "char \<Rightarrow> bool" where
  "is_control c = (let n = ord c in
     n \<le> 8 \<or> n = 11 \<or> n = 12 \<or> (14 \<le> n \<and> n \<le> 31) \<or> (127 \<le> n \<and> n \<le> 159))"

text \<open>\<^verbatim>\<open>_fix_unescaped_newlines_in_strings\<close>; \<open>res\<close> is the \<open>result\<close> list, last
  character first.\<close>

fun fix_newlines_loop :: "string \<Rightarrow> bool \<Rightarrow> string \<Rightarrow> string" where
  "fix_newlines_loop res in_string [] = rev res"
| "fix_newlines_loop res in_string (c # cs) =
     (if c = dq then
        (if \<not> in_string then fix_newlines_loop (c # res) True cs
         else if even (length (takeWhile (\<lambda>x. x = bsl) res))
           then fix_newlines_loop (c # res) False cs
         else fix_newlines_loop (c # res) in_string cs)
      else if in_string \<and> c = nl then fix_newlines_loop (CHR ''n'' # bsl # res) in_string cs
      else if in_string \<and> c = CHR 0x0D then fix_newlines_loop (CHR ''r'' # bsl # res) in_string cs
      else if in_string \<and> c = CHR 0x09 then fix_newlines_loop (CHR ''t'' # bsl # res) in_string cs
      else fix_newlines_loop (c # res) in_string cs)"

definition fix_unescaped_newlines_in_strings :: "string \<Rightarrow> string" where
  "fix_unescaped_newlines_in_strings text = fix_newlines_loop [] False text"

definition fix_common_errors :: "string \<Rightarrow> string" where
  "fix_common_errors text =
     (let r1 = sub_trailing_comma text;
          r2 = sub_missing_comma_after_close r1;
          r3 = sub_with string_then_key 0 r2;
          r4 = sub_with scalar_then_key 0 r3;
          r5 = filter (\<lambda>c. \<not> is_control c) r4
      in fix_unescaped_newlines_in_strings r5)"


text \<open>\<^verbatim>\<open>_fix_missing_commas\<close>; \<open>lve\<close> is \<open>last_value_end\<close>, \<open>None\<close> for \<open>-1\<close>.\<close>

definition add_comma :: "string \<Rightarrow> nat option \<Rightarrow> string" where
  "add_comma result lve =
     (case lve of None \<Rightarrow> result
      | Some k \<Rightarrow>
          (let between = drop k result in
           if strip between \<noteq> [] \<and> CHR '','' \<notin> set between \<and> CHR '':'' \<notin> set between
             then result @ '','' else result))"

fun missing_commas_loop :: "string \<Rightarrow> bool \<Rightarrow> nat option \<Rightarrow> string \<Rightarrow> string" where
  "missing_commas_loop result in_string lve [] = result"
| "missing_commas_loop result in_string lve (c # cs) =
     (if c = dq then
        (if \<not> in_string then missing_commas_loop (add_comma result lve @ [c]) True lve cs
         else if even (length (takeWhile (\<lambda>x. x = bsl) (rev result)))
           then missing_commas_loop (result @ [c]) False (Some (length result + 1)) cs
         else missing_commas_loop (result @ [c]) in_string lve cs)
      else if \<not> in_string \<and> json_ws c then
        missing_commas_loop (result @ [c]) in_string
          (if result \<noteq> [] \<and> \<not> json_ws (last result) \<and> last result \<notin> set '',:[{''
             then Some (length result) else lve) cs
      else if \<not> in_string \<and> (c = CHR ''}'' \<or> c = CHR '']'') then
        missing_commas_loop (result @ [c]) in_string None cs
      else if \<not> in_string \<and> (c = CHR ''{'' \<or> c = CHR ''['') then
        missing_commas_loop (add_comma result lve @ [c]) in_string None cs
      else missing_commas_loop (result @ [c]) in_string lve cs)"

definition fix_missing_commas :: "string \<Rightarrow> string" where
  "fix_missing_commas text = missing_commas_loop [] False None text"

text \<open>\<^verbatim>\<open>_extract_valid_json\<close>; \<open>None\<close> is the source's \<^verbatim>\<open>None\<close>.\<close>

fun longest_valid_prefix :: "string \<Rightarrow> nat \<Rightarrow> string option" where
  "longest_valid_prefix text 0 = None"
| "longest_valid_prefix text (Suc n) =
     (if json_loads_ok (take (Suc n) text) then Some (take (Suc n) text)
      else longest_valid_prefix text n)"

fun nested_valid :: "string \<Rightarrow> string option" where
  "nested_valid [] = None"
| "nested_valid (c # cs) =
     (if c = CHR ''{'' \<or> c = CHR ''['' then
        (case longest_valid_prefix (c # cs) (length (c # cs)) of
           Some r \<Rightarrow> Some r
         | None \<Rightarrow> nested_valid cs)
      else nested_valid cs)"

definition extract_valid_json :: "string \<Rightarrow> string option" where
  "extract_valid_json text =
     (case longest_valid_prefix text (length text) of
        Some r \<Rightarrow> Some r
      | None \<Rightarrow> nested_valid text)"

definition try_aggressive_fix :: "string \<Rightarrow> string" where
  "try_aggressive_fix text =
     (if json_loads_ok (fix_common_errors text) then fix_common_errors text
      else if json_loads_ok (fix_trailing_content text) then fix_trailing_content text
      else if json_loads_ok (fix_missing_commas text) then fix_missing_commas text
      else case extract_valid_json text of
          None \<Rightarrow> text
        | Some r \<Rightarrow> if r \<noteq> [] \<and> json_loads_ok r then r else text)"

subsection \<open>\<^verbatim>\<open>clean_json_response\<close>\<close>

definition is_open :: "char \<Rightarrow> bool" where
  "is_open c = (c = CHR ''{'' \<or> c = CHR ''['')"

text \<open>The candidate that the bracket scan leaves: the text up to \<open>end\<close> when the first
  bracket was closed, otherwise the whole text, repaired by
  \<open>try_fix_unclosed_json\<close> when brackets are still open.\<close>

definition scan_result :: "string \<Rightarrow> string" where
  "scan_result text =
     (case bracket_scan [] text [] False of
        (stack, Some e, in_string) \<Rightarrow> take e text
      | (stack, None, in_string) \<Rightarrow>
          if stack \<noteq> [] then try_fix_unclosed_json text stack in_string else text)"

definition clean_json_response :: "string \<Rightarrow> string" where
  "clean_json_response text =
     (if text = [] then text
      else let text1 = strip_markdown text in
        if json_loads_ok text1 then text1
        else if \<not> (\<exists>c \<in> set text1. is_open c) then text1
        else let result = scan_result (dropWhile (\<lambda>c. \<not> is_open c) text1) in
          if json_loads_ok result then result
          else try_aggressive_fix result)"


subsection \<open>Two observations of the recogniser's state\<close>

text \<open>The characters a literal name still expects are never whitespace or a backquote;
  \<open>in_str\<close> holds between the quotes of a string literal.\<close>

definition lit_ok :: "jstate \<Rightarrow> bool" where
  "lit_ok s = (case fst s of Lit xs \<Rightarrow> (\<forall>c \<in> set xs. \<not> is_space c \<and> c \<noteq> CHR 0x60) | _ \<Rightarrow> True)"

definition in_str :: "jstate \<Rightarrow> bool" where
  "in_str s = (case fst s of Str k \<Rightarrow> True | _ \<Rightarrow> False)"

section \<open>Python values\<close>

text \<open>
  The raw responses handed to the adapters are untyped Python values: mappings with
  string keys (an association list; a key's value is that of its first entry), lists,
  strings, numbers, \<^verbatim>\<open>None\<close>, and objects with named attributes (the SDK's response
  objects).  A float is a mantissa and a binary exponent; only its being zero matters here.
\<close>

datatype pyval =
    PNone
  | PBool bool
  | PInt int
  | PFloat int int
  | PStr string
  | PList "pyval list"
  | PDict "(string \<times> pyval) list"
  | PObj "(string \<times> pyval) list"

text \<open>Truth value testing.  Objects are true: the response classes define neither
  \<^verbatim>\<open>__bool__\<close> nor \<^verbatim>\<open>__len__\<close>.\<close>

fun py_truthy :: "pyval \<Rightarrow> bool" where
  "py_truthy PNone = False"
| "py_truthy (PBool b) = b"
| "py_truthy (PInt i) = (i \<noteq> 0)"
| "py_truthy (PFloat m e) = (m \<noteq> 0)"
| "py_truthy (PStr s) = (s \<noteq> [])"
| "py_truthy (PList xs) = (xs \<noteq> [])"
| "py_truthy (PDict d) = (d \<noteq> [])"
| "py_truthy (PObj a) = True"

text \<open>In the operations below \<open>None\<close> means that Python raises (\<^verbatim>\<open>IndexError\<close>,
  \<^verbatim>\<open>KeyError\<close>, \<^verbatim>\<open>TypeError\<close> or \<^verbatim>\<open>AttributeError\<close>); the adapters catch all of them
  with one \<^verbatim>\<open>except Exception\<close>.\<close>

text \<open>\<^verbatim>\<open>v.get(key, default)\<close>: only a mapping has the method.\<close>

fun py_get :: "pyval \<Rightarrow> string \<Rightarrow> pyval \<Rightarrow> pyval option" where
  "py_get (PDict d) key dflt = Some (case map_of d key of Some v \<Rightarrow> v | None \<Rightarrow> dflt)"
| "py_get _ key dflt = None"

text \<open>\<^verbatim>\<open>v[0]\<close>\<close>

fun py_first :: "pyval \<Rightarrow> pyval option" where
  "py_first (PList (x # xs)) = Some x"
| "py_first (PStr (c # cs)) = Some (PStr [c])"
| "py_first _ = None"

text \<open>\<^verbatim>\<open>v[key]\<close> for a string key\<close>

fun py_item :: "pyval \<Rightarrow> string \<Rightarrow> pyval option" where
  "py_item (PDict d) key = map_of d key"
| "py_item _ key = None"

text \<open>\<^verbatim>\<open>v.name\<close>; \<^verbatim>\<open>hasattr(v, name)\<close> is \<open>py_attr v name \<noteq> None\<close>.  The names asked
  for (\<^verbatim>\<open>choices\<close>, \<^verbatim>\<open>message\<close>, \<^verbatim>\<open>tool_calls\<close>, \<^verbatim>\<open>content\<close>, \<^verbatim>\<open>id\<close>, \<^verbatim>\<open>type\<close>,
  \<^verbatim>\<open>function\<close>, \<^verbatim>\<open>name\<close>, \<^verbatim>\<open>arguments\<close>, \<^verbatim>\<open>function_call\<close>) are attributes of no
  built-in value.\<close>

fun py_attr :: "pyval \<Rightarrow> string \<Rightarrow> pyval option" where
  "py_attr (PObj a) name = map_of a name"
| "py_attr _ name = None"

text \<open>\<^verbatim>\<open>len(v)\<close>\<close>

fun py_len :: "pyval \<Rightarrow> nat option" where
  "py_len (PStr s) = Some (length s)"
| "py_len (PList xs) = Some (length xs)"
| "py_len (PDict d) = Some (length (remdups (map fst d)))"
| "py_len _ = None"

text \<open>\<^verbatim>\<open>for x in v\<close>: the elements of a list, the characters of a string, the keys of
  a mapping.\<close>

fun py_iter :: "pyval \<Rightarrow> pyval list option" where
  "py_iter (PList xs) = Some xs"
| "py_iter (PStr s) = Some (map (\<lambda>c. PStr [c]) s)"
| "py_iter (PDict d) = Some (map PStr (remdups (map fst d)))"
| "py_iter _ = None"

section \<open>The adapters (\<^verbatim>\<open>mcp/adapters\<close>)\<close>

datatype AdapterType = FUNCTION_CALLING | PROMPT_INJECTION | REACT | XML

record ToolCallResult =
  tool_calls :: pyval
  raw_response :: pyval
  has_tool_calls :: bool
  needs_continuation :: bool

text \<open>The dataclass default \<^verbatim>\<open>needs_continuation=False\<close>.\<close>

definition no_tool_calls :: "pyval \<Rightarrow> ToolCallResult" where
  "no_tool_calls raw =
     \<lparr>tool_calls = PList [], raw_response = raw, has_tool_calls = False,
      needs_continuation = False\<rparr>"

subsection \<open>\<^verbatim>\<open>FunctionCallingAdapter.parse_tool_calls\<close>\<close>

text \<open>The dictionary built for one tool call of an SDK object.\<close>

definition fc_convert :: "pyval \<Rightarrow> pyval option" where
  "fc_convert tc = do {
     i \<leftarrow> py_attr tc ''id'';
     t \<leftarrow> py_attr tc ''type'';
     f \<leftarrow> py_attr tc ''function'';
     n \<leftarrow> py_attr f ''name'';
     a \<leftarrow> py_attr f ''arguments'';
     Some (PDict [(''id'', i), (''type'', t),
                  (''function'', PDict [(''name'', n), (''arguments'', a)])])
   }"

text \<open>\<open>those\<close> of a list of options: all of them, or \<open>None\<close> when one is \<open>None\<close>,
  as a list comprehension that raises at the first failing element.\<close>

text \<open>The logging loop \<^verbatim>\<open>for tc in tool_calls: logger.info(tc['function']['name'])\<close>
  succeeds when every element offers both subscripts.\<close>

definition fc_loggable :: "pyval \<Rightarrow> bool" where
  "fc_loggable tc = (case py_item tc ''function'' of None \<Rightarrow> False
     | Some f \<Rightarrow> py_item f ''name'' \<noteq> None)"

text \<open>The end of the \<^verbatim>\<open>try\<close> block, from \<^verbatim>\<open>has_tool_calls = len(tool_calls) > 0\<close>.\<close>

definition fc_finish :: "pyval \<Rightarrow> pyval \<Rightarrow> ToolCallResult option" where
  "fc_finish calls content = do {
     n \<leftarrow> py_len calls;
     items \<leftarrow> py_iter calls;
     if 0 < n \<and> \<not> list_all fc_loggable items then None
     else Some \<lparr>tool_calls = calls,
                raw_response = (if py_truthy content then content else PStr []),
                has_tool_calls = 0 < n, needs_continuation = 0 < n\<rparr>
   }"

text \<open>\<^verbatim>\<open>getattr(message, "tool_calls", None) or []\<close> and
  \<^verbatim>\<open>getattr(message, "content", "") or ""\<close>\<close>

definition fc_sdk_calls :: "pyval \<Rightarrow> pyval" where
  "fc_sdk_calls message =
     (let calls = (case py_attr message ''tool_calls'' of None \<Rightarrow> PNone | Some v \<Rightarrow> v)
      in if py_truthy calls then calls else PList [])"

definition fc_sdk_content :: "pyval \<Rightarrow> pyval" where
  "fc_sdk_content message =
     (let content = (case py_attr message ''content'' of None \<Rightarrow> PStr [] | Some v \<Rightarrow> v)
      in if py_truthy content then content else PStr [])"

text \<open>\<^verbatim>\<open>if tool_calls: tool_calls = [{...} for tc in tool_calls]\<close>\<close>

definition fc_convert_all :: "pyval \<Rightarrow> pyval option" where
  "fc_convert_all calls =
     (if py_truthy calls
      then do { items \<leftarrow> py_iter calls; map_option PList (those (map fc_convert items)) }
      else Some calls)"

text \<open>The body of the \<^verbatim>\<open>try\<close> block; \<open>None\<close> when it raises.  \<open>str_of\<close> is Python's
  \<^verbatim>\<open>str()\<close>.\<close>

definition fc_try :: "(pyval \<Rightarrow> string) \<Rightarrow> pyval \<Rightarrow> ToolCallResult option" where
  "fc_try str_of ai_response =
     (case ai_response of
        PDict d \<Rightarrow> do {
          choices \<leftarrow> py_get ai_response ''choices'' (PList [PDict []]);
          choice \<leftarrow> py_first choices;
          message \<leftarrow> py_get choice ''message'' (PDict []);
          calls \<leftarrow> py_get message ''tool_calls'' (PList []);
          content \<leftarrow> py_get message ''content'' (PStr []);
          fc_finish calls content
        }
      | _ \<Rightarrow>
        (case py_attr ai_response ''choices'' of
           Some choices \<Rightarrow> do {
             choice \<leftarrow> py_first choices;
             message \<leftarrow> py_attr choice ''message'';
             calls \<leftarrow> fc_convert_all (fc_sdk_calls message);
             fc_finish calls (fc_sdk_content message)
           }
         | None \<Rightarrow> Some (no_tool_calls (PStr (str_of ai_response)))))"

definition fc_parse_tool_calls :: "(pyval \<Rightarrow> string) \<Rightarrow> pyval \<Rightarrow> ToolCallResult" where
  "fc_parse_tool_calls str_of ai_response =
     (case fc_try str_of ai_response of
        Some r \<Rightarrow> r
      | None \<Rightarrow> no_tool_calls (PStr (str_of ai_response)))"

subsection \<open>\<^verbatim>\<open>PromptInjectionAdapter.parse_tool_calls\<close>\<close>

text \<open>The first place where a pattern occurs in a text: what precedes it and what
  follows it.\<close>

fun split_on :: "bool \<Rightarrow> string \<Rightarrow> string \<Rightarrow> (string \<times> string) option" where
  "split_on ci pat [] = (if pat = [] then Some ([], []) else None)"
| "split_on ci pat (c # cs) =
     (if starts_with ci pat (c # cs) then Some ([], drop (length pat) (c # cs))
      else map_option (\<lambda>(a, b). (c # a, b)) (split_on ci pat cs))"

text \<open>
  \<^verbatim>\<open>re.search(r'<tag>(.*?)</tag>', text, re.DOTALL | re.IGNORECASE)\<close>: the match starts
  at the first opening tag that a closing tag follows, which is the first opening tag,
  and the lazy group ends at the first closing tag after it.  The result is group 1 and
  the text after the match.
\<close>

definition search_tag :: "string \<Rightarrow> string \<Rightarrow> (string \<times> string) option" where
  "search_tag tag text =
     (case split_on True (''<'' @ tag @ ''>'') text of
        None \<Rightarrow> None
      | Some (before, r) \<Rightarrow> split_on True (''</'' @ tag @ ''>'') r)"

text \<open>\<^verbatim>\<open>re.findall\<close> with the same kind of pattern: the groups of the successive
  matches, each search starting where the previous match ended.\<close>

function findall_tag :: "string \<Rightarrow> string \<Rightarrow> string list" where
  "findall_tag tag text =
     (case search_tag tag text of
        None \<Rightarrow> []
      | Some (body, rest) \<Rightarrow> body # findall_tag tag rest)"
  by pat_completeness auto
termination
proof (relation "measure (\<lambda>(tag, s). length s)")
  fix tag s0 :: string and x :: "string \<times> string" and body rest :: string
  assume m: "search_tag tag s0 = Some x" and x: "(body, rest) = x"
  have le: "length b \<le> length s" if "split_on ci pat s = Some (a, b)" for ci pat s a b
    using that by (induction s arbitrary: a) (auto split: if_splits)
  have lt: "length b < length s" if "split_on ci pat s = Some (a, b)" "pat \<noteq> []"
    for ci pat s a b
    using that
  proof (induction s arbitrary: a)
    case Nil
    then show ?case by simp
  next
    case (Cons c cs)
    then show ?case by (cases pat) (auto split: if_splits)
  qed
  from m x obtain before r where o: "split_on True (''<'' @ tag @ ''>'') s0 = Some (before, r)"
    and c: "split_on True (''</'' @ tag @ ''>'') r = Some (body, rest)"
    by (auto simp: search_tag_def split: option.splits)
  from lt [OF o] le [OF c] have "length rest < length s0" by simp
  then show "((tag, rest), (tag, s0)) \<in> measure (\<lambda>(tag, s). length s)" by simp
qed simp

text \<open>\<^verbatim>\<open>str(i)\<close> for an index.\<close>

fun str_nat :: "nat \<Rightarrow> string" where
  "str_nat n = (if n < 10 then [char_of (48 + n)]
                else str_nat (n div 10) @ [char_of (48 + n mod 10)])"

declare str_nat.simps [simp del] findall_tag.simps [simp del]

text \<open>
  One round of the loop over the \<^verbatim>\<open><tool_call>\<close> blocks: the dictionary appended to
  \<^verbatim>\<open>tool_calls\<close>, if any.  \<open>dumps_loads s\<close> is
  \<^verbatim>\<open>json.dumps(json.loads(s), ensure_ascii=False)\<close> for a text that parses; the
  serialiser belongs to the standard library and its output plays no part here.
\<close>

definition pi_entry :: "(string \<Rightarrow> string) \<Rightarrow> nat \<Rightarrow> string \<Rightarrow> pyval option" where
  "pi_entry dumps_loads i tool_call_content =
     (case (search_tag ''tool_name'' tool_call_content, search_tag ''arguments'' tool_call_content) of
        (Some (name, _), Some (args, _)) \<Rightarrow>
          (let tool_name = strip name; arguments_str = strip args in
           if json_loads_ok arguments_str then
             Some (PDict [(''id'', PStr (''call_'' @ str_nat i)),
                          (''type'', PStr ''function''),
                          (''function'', PDict [(''name'', PStr tool_name),
                             (''arguments'', PStr (dumps_loads arguments_str))])])
           else None)
      | _ \<Rightarrow> None)"

text \<open>\<^verbatim>\<open>for i, tool_call_content in enumerate(tool_call_matches)\<close>, with the list
  \<^verbatim>\<open>tool_calls\<close> as accumulator.\<close>

fun pi_loop :: "(string \<Rightarrow> string) \<Rightarrow> nat \<Rightarrow> string list \<Rightarrow> pyval list \<Rightarrow> pyval list" where
  "pi_loop dumps_loads i [] acc = acc"
| "pi_loop dumps_loads i (m # ms) acc =
     pi_loop dumps_loads (i + 1) ms
       (case pi_entry dumps_loads i m of Some tc \<Rightarrow> acc @ [tc] | None \<Rightarrow> acc)"

text \<open>The scan of a response that is a string.\<close>

definition pi_parse_text :: "(string \<Rightarrow> string) \<Rightarrow> string \<Rightarrow> ToolCallResult" where
  "pi_parse_text dumps_loads text =
     (case search_tag ''tool_calls'' text of
        None \<Rightarrow> no_tool_calls (PStr text)
      | Some (tool_calls_content, _) \<Rightarrow>
          (let calls = pi_loop dumps_loads 0 (findall_tag ''tool_call'' tool_calls_content) [] in
           \<lparr>tool_calls = PList calls, raw_response = PStr text,
            has_tool_calls = 0 < length calls, needs_continuation = 0 < length calls\<rparr>))"

text \<open>
  The body of the \<^verbatim>\<open>try\<close> block.  \<open>Inl v\<close>: it raises, the variable \<^verbatim>\<open>ai_response\<close>
  holding \<open>v\<close> at that moment.  A mapping is replaced by its
  \<^verbatim>\<open>choices[0].message.content\<close>; when that raises the variable is still the mapping;
  when the content is true but not a string, \<^verbatim>\<open>re.search\<close> raises on it.
\<close>

definition pi_content :: "pyval \<Rightarrow> pyval option" where
  "pi_content ai_response = do {
     choices \<leftarrow> py_get ai_response ''choices'' (PList [PDict []]);
     choice \<leftarrow> py_first choices;
     message \<leftarrow> py_get choice ''message'' (PDict []);
     py_get message ''content'' (PStr [])
   }"

definition pi_try ::
    "(string \<Rightarrow> string) \<Rightarrow> (pyval \<Rightarrow> string) \<Rightarrow> pyval \<Rightarrow> pyval + ToolCallResult" where
  "pi_try dumps_loads str_of ai_response =
     (case ai_response of
        PDict d \<Rightarrow>
          (case pi_content ai_response of
             None \<Rightarrow> Inl ai_response
           | Some content \<Rightarrow>
               if \<not> py_truthy content then Inr (no_tool_calls (PStr []))
               else (case content of
                       PStr s \<Rightarrow> Inr (pi_parse_text dumps_loads s)
                     | _ \<Rightarrow> Inl content))
      | PStr s \<Rightarrow> Inr (pi_parse_text dumps_loads s)
      | _ \<Rightarrow> Inr (pi_parse_text dumps_loads (str_of ai_response)))"

definition pi_parse_tool_calls ::
    "(string \<Rightarrow> string) \<Rightarrow> (pyval \<Rightarrow> string) \<Rightarrow> pyval \<Rightarrow> ToolCallResult" where
  "pi_parse_tool_calls dumps_loads str_of ai_response =
     (case pi_try dumps_loads str_of ai_response of
        Inr r \<Rightarrow> r
      | Inl v \<Rightarrow> no_tool_calls v)"

subsection \<open>The claimed shapes, in the specification's words\<close>



text \<open>The normalized invocation shape
  \<^verbatim>\<open>{id: string, type: "function", function: {name: string, arguments: string}}\<close>.\<close>

definition normalized_invocation :: "pyval \<Rightarrow> bool" where
  "normalized_invocation v =
     (case (py_item v ''id'', py_item v ''type'', py_item v ''function'') of
        (Some (PStr i), Some (PStr t), Some f) \<Rightarrow>
          t = ''function'' \<and>
          (case (py_item f ''name'', py_item f ''arguments'') of
             (Some (PStr n), Some (PStr a)) \<Rightarrow> True
           | _ \<Rightarrow> False)
      | _ \<Rightarrow> False)"

section \<open>The capability cache and fallback (\<^verbatim>\<open>mcp/adapters/universal.py\<close>)\<close>

text \<open>
  Times are integers (microseconds, the resolution of \<^verbatim>\<open>datetime\<close>); the clock readings
  an operation makes are inputs of the model.  What an awaited callable does is its
  outcome: it raises an exception whose \<^verbatim>\<open>str()\<close> is given, or it returns.
\<close>

datatype 'a outcome = Raised string | Returned 'a

record APICapability =
  supports_function_calling :: bool
  tested_at :: int
  test_duration_ms :: int
  error_message :: "string option"

record UniversalMCPAdapter =
  capability_cache :: "string \<rightharpoonup> APICapability"
  cache_ttl :: int
  enable_auto_fallback :: bool

text \<open>The readings of one operation: \<^verbatim>\<open>datetime.now()\<close> in the cache lookup, in the
  record a probe creates and in the record a degrade creates, and the measured duration
  of the probe.\<close>

record clock =
  now_lookup :: int
  now_probe :: int
  probe_ms :: int
  now_degrade :: int

text \<open>\<^verbatim>\<open>supports_native_tools()\<close> of the adapter registered for a type.\<close>

definition supports_native_tools :: "AdapterType \<Rightarrow> bool" where
  "supports_native_tools a = (a = FUNCTION_CALLING)"

definition get_cached_capability ::
    "UniversalMCPAdapter \<Rightarrow> int \<Rightarrow> string \<Rightarrow> APICapability option \<times> UniversalMCPAdapter" where
  "get_cached_capability u now api_identifier =
     (case capability_cache u api_identifier of
        None \<Rightarrow> (None, u)
      | Some capability \<Rightarrow>
          if now - tested_at capability > cache_ttl u
          then (None, u\<lparr>capability_cache := (capability_cache u)(api_identifier := None)\<rparr>)
          else (Some capability, u))"

text \<open>\<^verbatim>\<open>key in v\<close>: a key of a mapping, a substring of a string, an element of a
  list; \<open>None\<close> where Python raises \<^verbatim>\<open>TypeError\<close>.\<close>

fun py_contains :: "pyval \<Rightarrow> string \<Rightarrow> bool option" where
  "py_contains (PDict d) key = Some (map_of d key \<noteq> None)"
| "py_contains (PStr s) key = Some (split_on False key s \<noteq> None)"
| "py_contains (PList xs) key = Some (PStr key \<in> set xs)"
| "py_contains _ key = None"

definition is_function_calling_response :: "pyval \<Rightarrow> bool" where
  "is_function_calling_response response =
     (case response of
        PDict d \<Rightarrow>
          (case do { choices \<leftarrow> py_get response ''choices'' (PList [PDict []]);
                     choice \<leftarrow> py_first choices;
                     message \<leftarrow> py_get choice ''message'' (PDict []);
                     a \<leftarrow> py_contains message ''tool_calls'';
                     if a then Some True else py_contains message ''function_call'' }
           of Some b \<Rightarrow> b | None \<Rightarrow> False)
      | _ \<Rightarrow>
          (case py_attr response ''choices'' of
             None \<Rightarrow> False
           | Some choices \<Rightarrow>
               (case do { choice \<leftarrow> py_first choices; py_attr choice ''message'' } of
                  None \<Rightarrow> False
                | Some message \<Rightarrow>
                    py_attr message ''tool_calls'' \<noteq> None \<or> py_attr message ''function_call'' \<noteq> None)))"

text \<open>\<^verbatim>\<open>_detect_capability\<close>, given what the awaited \<^verbatim>\<open>test_function()\<close> did.\<close>

definition detect_capability ::
    "UniversalMCPAdapter \<Rightarrow> clock \<Rightarrow> string \<Rightarrow> pyval outcome \<Rightarrow> APICapability \<times> UniversalMCPAdapter" where
  "detect_capability u clk api_identifier probe =
     (let capability =
        (case probe of
           Returned result \<Rightarrow>
             \<lparr>supports_function_calling = is_function_calling_response result,
              tested_at = now_probe clk, test_duration_ms = probe_ms clk, error_message = None\<rparr>
         | Raised e \<Rightarrow>
             \<lparr>supports_function_calling = False,
              tested_at = now_probe clk, test_duration_ms = probe_ms clk, error_message = Some e\<rparr>)
      in (capability, u\<lparr>capability_cache := (capability_cache u)(api_identifier \<mapsto> capability)\<rparr>))"

text \<open>\<^verbatim>\<open>get_adapter\<close>.  \<open>test_function\<close> is \<open>None\<close> when the caller supplies none, and
  otherwise what the function does if it is awaited.  The third component counts how
  often it was awaited.\<close>

definition get_adapter ::
    "UniversalMCPAdapter \<Rightarrow> clock \<Rightarrow> string \<Rightarrow> pyval outcome option
      \<Rightarrow> AdapterType \<times> UniversalMCPAdapter \<times> nat" where
  "get_adapter u clk api_identifier test_function =
     (let (cached, u1) = get_cached_capability u (now_lookup clk) api_identifier;
          (capability, u2, probes) =
            (case (cached, test_function) of
               (None, Some probe) \<Rightarrow>
                 (let (c, u2) = detect_capability u1 clk api_identifier probe in (Some c, u2, 1))
             | _ \<Rightarrow> (cached, u1, 0))
      in (case capability of
            Some c \<Rightarrow> if supports_function_calling c then (FUNCTION_CALLING, u2, probes)
                       else (PROMPT_INJECTION, u2, probes)
          | None \<Rightarrow> (PROMPT_INJECTION, u2, probes)))"

text \<open>The keyword arguments of \<^verbatim>\<open>call_function\<close>.\<close>

record call_args =
  message :: string
  tools_param :: "pyval option"
  tool_choice_param :: "string option"

text \<open>What the orchestrator takes from its surroundings: the two functions of the
  standard library used by the parsers, and \<^verbatim>\<open>format_tools_for_prompt\<close> of the
  prompt-injection adapter, whose text plays no part in the decisions modelled here.\<close>

record env =
  json_dumps_loads :: "string \<Rightarrow> string"
  py_str :: "pyval \<Rightarrow> string"
  format_tools_for_prompt :: "pyval \<Rightarrow> string \<Rightarrow> string outcome"

definition try_function_calling ::
    "env \<Rightarrow> pyval \<Rightarrow> string \<Rightarrow> (call_args \<Rightarrow> pyval outcome) \<Rightarrow> ToolCallResult outcome" where
  "try_function_calling ev tools user_message call_function =
     (case call_function \<lparr>message = user_message, tools_param = Some tools,
                          tool_choice_param = Some ''auto''\<rparr> of
        Raised e \<Rightarrow> Raised e
      | Returned response \<Rightarrow> Returned (fc_parse_tool_calls (py_str ev) response))"

definition try_prompt_injection ::
    "env \<Rightarrow> pyval \<Rightarrow> string \<Rightarrow> (call_args \<Rightarrow> pyval outcome) \<Rightarrow> ToolCallResult outcome" where
  "try_prompt_injection ev tools user_message call_function =
     (case format_tools_for_prompt ev tools user_message of
        Raised e \<Rightarrow> Raised e
      | Returned enhanced_prompt \<Rightarrow>
          (case call_function \<lparr>message = enhanced_prompt, tools_param = None,
                               tool_choice_param = None\<rparr> of
             Raised e \<Rightarrow> Raised e
           | Returned response \<Rightarrow>
               Returned (pi_parse_tool_calls (json_dumps_loads ev) (py_str ev) response)))"

text \<open>What one \<^verbatim>\<open>call_with_fallback\<close> did besides returning: the adapter
  \<^verbatim>\<open>get_adapter\<close> selected, how often the probe was awaited, and the strategies tried,
  in order.\<close>

record call_report =
  selected :: AdapterType
  probe_count :: nat
  paths :: "AdapterType list"

definition call_with_fallback ::
    "env \<Rightarrow> UniversalMCPAdapter \<Rightarrow> clock \<Rightarrow> string \<Rightarrow> pyval \<Rightarrow> string
      \<Rightarrow> (call_args \<Rightarrow> pyval outcome) \<Rightarrow> pyval outcome option
      \<Rightarrow> ToolCallResult outcome \<times> UniversalMCPAdapter \<times> call_report" where
  "call_with_fallback ev u clk api_identifier tools user_message call_function test_function =
     (let (adapter, u1, n) = get_adapter u clk api_identifier test_function in
      case (if supports_native_tools adapter
            then try_function_calling ev tools user_message call_function
            else try_prompt_injection ev tools user_message call_function) of
        Returned result \<Rightarrow>
          (Returned result, u1, \<lparr>selected = adapter, probe_count = n, paths = [adapter]\<rparr>)
      | Raised e \<Rightarrow>
          if enable_auto_fallback u1 \<and> supports_native_tools adapter then
            (try_prompt_injection ev tools user_message call_function,
             u1\<lparr>capability_cache := (capability_cache u1)(api_identifier \<mapsto>
                  \<lparr>supports_function_calling = False, tested_at = now_degrade clk,
                   test_duration_ms = 0, error_message = Some e\<rparr>)\<rparr>,
             \<lparr>selected = adapter, probe_count = n, paths = [adapter, PROMPT_INJECTION]\<rparr>)
          else (Raised e, u1, \<lparr>selected = adapter, probe_count = n, paths = [adapter]\<rparr>))"

text \<open>\<^verbatim>\<open>clear_cache\<close>: \<^verbatim>\<open>if api_identifier:\<close> is false for \<^verbatim>\<open>None\<close> and for the empty
  string, and then every record is removed.\<close>

definition clear_cache :: "UniversalMCPAdapter \<Rightarrow> string option \<Rightarrow> UniversalMCPAdapter" where
  "clear_cache u api_identifier =
     (case api_identifier of
        None \<Rightarrow> u\<lparr>capability_cache := Map.empty\<rparr>
      | Some i \<Rightarrow>
          if i = [] then u\<lparr>capability_cache := Map.empty\<rparr>
          else u\<lparr>capability_cache := (capability_cache u)(i := None)\<rparr>)"

subsection \<open>Sequences of operations on one orchestrator\<close>

datatype operation =
    GetAdapter string "pyval outcome option" clock
  | CallWithFallback string pyval string "call_args \<Rightarrow> pyval outcome" "pyval outcome option" clock
  | ClearCache "string option"

datatype observation =
    Adapter AdapterType nat
  | Called "ToolCallResult outcome" call_report
  | Cleared

definition step :: "env \<Rightarrow> UniversalMCPAdapter \<Rightarrow> operation \<Rightarrow> UniversalMCPAdapter \<times> observation" where
  "step ev u opn =
     (case opn of
        GetAdapter i test_function clk \<Rightarrow>
          (let (a, u', n) = get_adapter u clk i test_function in (u', Adapter a n))
      | CallWithFallback i tools msg call_function test_function clk \<Rightarrow>
          (let (r, u', rep) = call_with_fallback ev u clk i tools msg call_function test_function
           in (u', Called r rep))
      | ClearCache i \<Rightarrow> (clear_cache u i, Cleared))"

fun run :: "env \<Rightarrow> UniversalMCPAdapter \<Rightarrow> operation list \<Rightarrow> UniversalMCPAdapter \<times> observation list" where
  "run ev u [] = (u, [])"
| "run ev u (opn # ops) =
     (let (u1, ob) = step ev u opn; (u2, obs) = run ev u1 ops in (u2, ob # obs))"



section \<open>Verified properties\<close>

subsection \<open>Truncation repair\<close>

text \<open>
  C6.  The decoder repairs the text \<^verbatim>\<open>{"a": 1, "b": "x\<close>, a string value cut
  mid-token, to exactly \<^verbatim>\<open>{"a": 1, "b": "x"}\<close>, which parses.  The input itself does
  not parse; the bracket scan ends inside a string with one brace on the stack, and
  \<open>try_fix_unclosed_json\<close> adds the quote and then the brace.
\<close>

theorem truncation_repair:
  \<open>clean_json_response ''{"a": 1, "b": "x'' = ''{"a": 1, "b": "x"}''
   \<and> json_loads_ok ''{"a": 1, "b": "x"}''
   \<and> \<not> json_loads_ok ''{"a": 1, "b": "x''
   \<and> bracket_scan [] ''{"a": 1, "b": "x'' [] False = (''{'', None, True)
   \<and> try_fix_unclosed_json ''{"a": 1, "b": "x'' ''{'' True = ''{"a": 1, "b": "x"}''\<close>
  by code_simp

subsection \<open>When every repair fails\<close>







subsection \<open>Text that already parses\<close>

lemma json_ws_space: "json_ws c \<Longrightarrow> is_space c"
  by (auto simp: json_ws_def is_space_def ord_def)

lemma space_not_dq: "is_space c \<Longrightarrow> c \<noteq> dq"
  by (auto simp: is_space_def ord_def)

lemma lit_ok_step: "lit_ok s \<Longrightarrow> jstep s c = Some s' \<Longrightarrow> lit_ok s'"
  by (cases "(s, c)" rule: jstep.cases;
      clarsimp simp: lit_ok_def is_space_def ord_def split: if_splits list.splits container.splits)


lemma lit_ok_run: "lit_ok s \<Longrightarrow> jrun s t = Some s' \<Longrightarrow> lit_ok s'"
  by (induction t arbitrary: s) (auto split: option.splits dest: lit_ok_step)

lemma backquote_step: "lit_ok s \<Longrightarrow> jstep s (CHR 0x60) = Some s' \<Longrightarrow> in_str s \<and> s' = s"
  by (cases "(s, CHR 0x60)" rule: jstep.cases;
      clarsimp simp: lit_ok_def in_str_def json_ws_def is_digit_def is_hex_def ord_def
        split: if_splits list.splits container.splits)

lemma newline_step: "lit_ok s \<Longrightarrow> jstep s nl = Some s' \<Longrightarrow> \<not> in_str s'"
  by (cases "(s, nl)" rule: jstep.cases;
      clarsimp simp: lit_ok_def in_str_def json_ws_def is_space_def is_digit_def is_hex_def ord_def
        split: if_splits list.splits container.splits)


lemma space_step_accepting:
  "lit_ok s \<Longrightarrow> is_space c \<Longrightarrow> jstep s c = Some s' \<Longrightarrow> accepting s' \<Longrightarrow> accepting s"
  by (cases "(s, c)" rule: jstep.cases;
      (clarsimp simp: lit_ok_def is_space_def is_digit_def is_hex_def ord_def Let_def
        split: if_splits list.splits container.splits)?; blast?)

lemma space_step_value:
  "is_space c \<Longrightarrow> jstep (Value, []) c = Some s' \<Longrightarrow> s' = (Value, [])"
  by (clarsimp simp: is_space_def is_digit_def ord_def Let_def split: if_splits)

lemma space_step_str:
  "is_space c \<Longrightarrow> jstep (Str k, st) c = Some s' \<Longrightarrow> s' = (Str k, st) \<and> c \<noteq> nl"
  by (clarsimp simp: is_space_def ord_def Let_def split: if_splits)


lemma jrun_append:
  "jrun s (a @ b) = (case jrun s a of None \<Rightarrow> None | Some s1 \<Rightarrow> jrun s1 b)"
  by (induction a arbitrary: s) (auto split: option.splits)

lemma lower_ascii_backquote: "lower_ascii c = lower_ascii (CHR 0x60) \<Longrightarrow> c = CHR 0x60"
proof -
  assume a: "lower_ascii c = lower_ascii (CHR 0x60)"
  have b: "lower_ascii (CHR 0x60) = CHR 0x60"
    by (simp add: lower_ascii_def ord_def)
  show ?thesis
  proof (cases "65 \<le> ord c \<and> ord c \<le> 90")
    case True
    with a b have "char_of (ord c + 32) = CHR 0x60"
      by (simp add: lower_ascii_def Let_def)
    then have "of_char (char_of (ord c + 32) :: char) = (of_char (CHR 0x60) :: nat)"
      by simp
    with True show ?thesis
      by (simp add: of_char_of)
  next
    case False
    with a b show ?thesis
      by (auto simp: lower_ascii_def Let_def)
  qed
qed

lemma starts_with_backquote:
  "starts_with ci (CHR 0x60 # p) (c # cs) \<Longrightarrow> c = CHR 0x60"
  by (auto dest: lower_ascii_backquote split: if_splits)

lemma sub_fence_open_valid:
  "lit_ok s \<Longrightarrow> jrun s t = Some s' \<Longrightarrow> (bol \<longrightarrow> \<not> in_str s)
   \<Longrightarrow> sub_fence_open ci (CHR 0x60 # p) bol t = t"
proof (induction t arbitrary: s bol)
  case Nil
  then show ?case by simp
next
  case (Cons c cs)
  from Cons.prems obtain s1 where s1: "jstep s c = Some s1" and run: "jrun s1 cs = Some s'"
    by (auto split: option.splits)
  have nomatch: "\<not> (bol \<and> starts_with ci (CHR 0x60 # p) (c # cs))"
  proof
    assume m: "bol \<and> starts_with ci (CHR 0x60 # p) (c # cs)"
    then have "c = CHR 0x60" by (blast dest: starts_with_backquote)
    with s1 Cons.prems(1) have "in_str s" by (auto dest: backquote_step)
    with m Cons.prems(3) show False by simp
  qed
  have "sub_fence_open ci (CHR 0x60 # p) (c = nl) cs = cs"
  proof (rule Cons.IH [OF _ run])
    show "lit_ok s1" using Cons.prems(1) s1 by (rule lit_ok_step)
    show "c = nl \<longrightarrow> \<not> in_str s1" using Cons.prems(1) s1 by (auto dest: newline_step)
  qed
  with nomatch show ?case by auto
qed

lemma str_run_spaces:
  "jrun (Str k, st) (ws @ rest) = Some s' \<Longrightarrow> \<forall>c \<in> set ws. is_space c
   \<Longrightarrow> nl \<notin> set ws \<and> jrun (Str k, st) rest = Some s'"
proof (induction ws)
  case Nil
  then show ?case by simp
next
  case (Cons c ws)
  from Cons.prems obtain s1 where s1: "jstep (Str k, st) c = Some s1"
    and run: "jrun s1 (ws @ rest) = Some s'"
    by (auto split: option.splits)
  from Cons.prems(2) have "is_space c" by simp
  from space_step_str [OF this s1] have "s1 = (Str k, st)" "c \<noteq> nl" by simp_all
  with Cons.IH run Cons.prems(2) show ?case by auto
qed

lemma fence_close_at_valid:
  assumes "lit_ok s" "jrun s t = Some s'" "accepting s'"
  shows "fence_close_at t = None"
proof (cases "starts_with False ''```'' t")
  case False
  then show ?thesis by (simp add: fence_close_at_def)
next
  case True
  then obtain r where t: "t = CHR 0x60 # CHR 0x60 # CHR 0x60 # r"
    by (cases t; cases "tl t"; cases "tl (tl t)") auto
  from assms(2) t obtain s1 where s1: "jstep s (CHR 0x60) = Some s1"
    and run1: "jrun s1 (CHR 0x60 # CHR 0x60 # r) = Some s'"
    by (auto split: option.splits)
  from backquote_step [OF assms(1) s1] have str: "in_str s" and "s1 = s" by simp_all
  then obtain k st where s: "s = (Str k, st)"
    by (cases s; cases "fst s") (auto simp: in_str_def)
  with run1 \<open>s1 = s\<close> have run: "jrun (Str k, st) r = Some s'"
    by (auto split: option.splits if_splits simp: ord_def)
  let ?ws = "takeWhile is_space r"
  have "jrun (Str k, st) (?ws @ dropWhile is_space r) = Some s'"
    using run by simp
  from str_run_spaces [OF this] have nonl: "nl \<notin> set ?ws"
    and rest: "jrun (Str k, st) (dropWhile is_space r) = Some s'"
    by (auto dest: set_takeWhileD)
  have "dropWhile is_space r \<noteq> []"
  proof
    assume "dropWhile is_space r = []"
    with rest have "s' = (Str k, st)" by simp
    with assms(3) show False by simp
  qed
  with nonl True t show ?thesis
    by (simp add: fence_close_at_def Let_def)
qed

lemma sub_fence_close_valid:
  "lit_ok s \<Longrightarrow> jrun s t = Some s' \<Longrightarrow> accepting s' \<Longrightarrow> sub_fence_close t = t"
proof (induction t arbitrary: s)
  case Nil
  then show ?case by simp
next
  case (Cons c cs)
  from Cons.prems obtain s1 where s1: "jstep s c = Some s1" and run: "jrun s1 cs = Some s'"
    by (auto split: option.splits)
  have ok1: "lit_ok s1" using Cons.prems(1) s1 by (rule lit_ok_step)
  have "fence_close_at (c # cs) = None"
    using Cons.prems by (rule fence_close_at_valid)
  moreover have "fence_close_at cs = None"
    using ok1 run Cons.prems(3) by (rule fence_close_at_valid)
  ultimately have "fence_close (c # cs) = None"
    by (simp add: fence_close_def)
  moreover have "sub_fence_close cs = cs"
    using ok1 run Cons.prems(3) by (rule Cons.IH)
  ultimately show ?case by simp
qed


lemma json_loads_ok_iff:
  "json_loads_ok t \<longleftrightarrow> (\<exists>s'. jrun (Value, []) t = Some s' \<and> accepting s')"
  by (auto simp: json_loads_ok_def split: option.splits)

lemma lit_ok_start: "lit_ok (Value, [])"
  by (simp add: lit_ok_def)

lemma lstrip_valid:
  "jrun (Value, []) t = Some s' \<Longrightarrow> jrun (Value, []) (dropWhile is_space t) = Some s'"
proof (induction t)
  case Nil
  then show ?case by simp
next
  case (Cons c cs)
  show ?case
  proof (cases "is_space c")
    case True
    from Cons.prems obtain s1 where s1: "jstep (Value, []) c = Some s1"
      and run: "jrun s1 cs = Some s'"
      by (auto split: option.splits)
    from space_step_value [OF True s1] run Cons.IH True show ?thesis by simp
  next
    case False
    with Cons.prems show ?thesis by simp
  qed
qed

lemma drop_last_space:
  assumes "lit_ok s" "jrun s (t @ [c]) = Some s'" "accepting s'" "is_space c"
  shows "\<exists>s1. jrun s t = Some s1 \<and> accepting s1"
proof -
  from assms(2) obtain s1 where s1: "jrun s t = Some s1" and st: "jstep s1 c = Some s'"
    by (auto simp: jrun_append split: option.splits)
  from assms(1) s1 have "lit_ok s1" by (rule lit_ok_run)
  from space_step_accepting [OF this assms(4) st assms(3)] s1 show ?thesis by blast
qed

lemma rstrip_valid:
  "lit_ok s \<Longrightarrow> \<exists>s'. jrun s (rev ys) = Some s' \<and> accepting s'
   \<Longrightarrow> \<exists>s'. jrun s (rev (dropWhile is_space ys)) = Some s' \<and> accepting s'"
proof (induction ys)
  case Nil
  then show ?case by simp
next
  case (Cons y ys)
  show ?case
  proof (cases "is_space y")
    case True
    from Cons.prems(2) obtain s' where "jrun s (rev ys @ [y]) = Some s'" "accepting s'"
      by auto
    from drop_last_space [OF Cons.prems(1) this True]
    have "\<exists>s1. jrun s (rev ys) = Some s1 \<and> accepting s1" .
    with Cons.IH [OF Cons.prems(1)] True show ?thesis by simp
  next
    case False
    with Cons.prems show ?thesis by simp
  qed
qed

lemma strip_valid: "json_loads_ok t \<Longrightarrow> json_loads_ok (strip t)"
proof -
  assume "json_loads_ok t"
  then obtain s' where "jrun (Value, []) t = Some s'" "accepting s'"
    by (auto simp: json_loads_ok_iff)
  then have "jrun (Value, []) (dropWhile is_space t) = Some s'" "accepting s'"
    by (simp_all add: lstrip_valid)
  then have "\<exists>s'. jrun (Value, []) (rev (rev (lstrip t))) = Some s' \<and> accepting s'"
    unfolding lstrip_def rev_rev_ident by blast
  from rstrip_valid [OF lit_ok_start this] show ?thesis
    by (simp add: json_loads_ok_iff strip_def rstrip_def)
qed

lemma strip_markdown_valid: "json_loads_ok t \<Longrightarrow> strip_markdown t = strip t"
proof -
  assume "json_loads_ok t"
  then obtain s' where run: "jrun (Value, []) t = Some s'" and acc: "accepting s'"
    by (auto simp: json_loads_ok_iff)
  have ns: "True \<longrightarrow> \<not> in_str (Value, [])" by (simp add: in_str_def)
  have a: "sub_fence_open True ''```json'' True t = t"
    using sub_fence_open_valid [OF lit_ok_start run ns] by simp
  have b: "sub_fence_open False ''```'' True t = t"
    using sub_fence_open_valid [OF lit_ok_start run ns] by simp
  have c: "sub_fence_close t = t"
    using lit_ok_start run acc by (rule sub_fence_close_valid)
  show ?thesis by (simp add: strip_markdown_def a b c)
qed

text \<open>
  C3 (as the code has it).  For every text that parses as JSON, the decoder returns the
  text with the whitespace before and after it removed, and that text parses; the fence
  substitutions change nothing in such a text.  A text that parses and has no whitespace
  at either end is therefore returned unchanged.
\<close>

theorem valid_json_returned_stripped:
  assumes "json_loads_ok text"
  shows "clean_json_response text = strip text \<and> json_loads_ok (strip text)"
proof -
  from assms have "text \<noteq> []" by (auto simp: json_loads_ok_def)
  with assms strip_markdown_valid [OF assms] strip_valid [OF assms] show ?thesis
    by (simp add: clean_json_response_def Let_def)
qed

theorem valid_json_returned_stripped_witness:
  \<open>json_loads_ok '' {"a": 1}'' \<and> clean_json_response '' {"a": 1}'' = strip '' {"a": 1}''
    \<and> json_loads_ok (strip '' {"a": 1}'')\<close>
proof -
  have h: \<open>json_loads_ok '' {"a": 1}''\<close> by code_simp
  from valid_json_returned_stripped [OF h] h show ?thesis by simp
qed

text \<open>
  The claim as stated fails: the text \<^verbatim>\<open> {"a": 1}\<close>, with a space in front, parses,
  and the decoder returns it without the space.
\<close>

theorem valid_json_not_unchanged:
  \<open>json_loads_ok '' {"a": 1}'' \<and> clean_json_response '' {"a": 1}'' = ''{"a": 1}''
    \<and> clean_json_response '' {"a": 1}'' \<noteq> '' {"a": 1}''\<close>
  by code_simp

subsection \<open>The prompt-injection parser\<close>















subsection \<open>Neither parser raises\<close>

lemma no_tool_calls_fields [simp]:
  "tool_calls (no_tool_calls v) = PList []" "raw_response (no_tool_calls v) = v"
  "\<not> has_tool_calls (no_tool_calls v)" "\<not> needs_continuation (no_tool_calls v)"
  by (simp_all add: no_tool_calls_def)



subsection \<open>The function-calling parser\<close>

lemma fc_finish_calls: "fc_finish calls content = Some r \<Longrightarrow> tool_calls r = calls"
  by (auto simp: fc_finish_def split: bind_splits if_splits)

lemma fc_finish_loggable:
  "fc_finish calls content = Some r \<Longrightarrow> has_tool_calls r \<Longrightarrow>
   \<exists>items. py_iter (tool_calls r) = Some items \<and> list_all fc_loggable items"
  by (auto simp: fc_finish_def split: bind_splits if_splits)

lemma those_map_Some:
  "those (map f xs) = Some ys \<Longrightarrow> length ys = length xs \<and> (\<forall>k < length xs. f (xs ! k) = Some (ys ! k))"
proof (induction xs arbitrary: ys)
  case Nil
  then show ?case by simp
next
  case (Cons x xs)
  then show ?case
    by (auto split: option.splits simp: nth_Cons split: nat.splits)
qed

lemma fc_convert_shape:
  "fc_convert tc = Some v \<Longrightarrow>
   \<exists>f. py_attr tc ''function'' = Some f \<and>
     v = PDict [(''id'', the (py_attr tc ''id'')), (''type'', the (py_attr tc ''type'')),
                (''function'', PDict [(''name'', the (py_attr f ''name'')),
                                       (''arguments'', the (py_attr f ''arguments''))])]"
  by (auto simp: fc_convert_def split: bind_splits)

text \<open>
  C5 (as the code has it).  In the nested-mapping shape the invocations returned are the
  value of \<^verbatim>\<open>choices[0].message.tool_calls\<close> exactly as received; nothing is rebuilt,
  and when there are calls each entry is only known to offer \<^verbatim>\<open>['function']['name']\<close>.
  In the object shape, when there are calls, each entry is rebuilt as the mapping
  \<^verbatim>\<open>{id, type, function: {name, arguments}}\<close> whose values are the attributes
  \<^verbatim>\<open>tc.id\<close>, \<^verbatim>\<open>tc.type\<close>, \<^verbatim>\<open>tc.function.name\<close>, \<^verbatim>\<open>tc.function.arguments\<close> as they are.
\<close>

theorem fc_invocations_as_received:
  "(\<forall>d r. x = PDict d \<and> fc_try str_of x = Some r \<longrightarrow>
      fc_parse_tool_calls str_of x = r
      \<and> (\<exists>choices choice message.
            py_get x ''choices'' (PList [PDict []]) = Some choices
          \<and> py_first choices = Some choice
          \<and> py_get choice ''message'' (PDict []) = Some message
          \<and> py_get message ''tool_calls'' (PList []) = Some (tool_calls r))
      \<and> (has_tool_calls r \<longrightarrow>
            (\<exists>items. py_iter (tool_calls r) = Some items \<and> list_all fc_loggable items)))
   \<and> (\<forall>choices r. (\<forall>d. x \<noteq> PDict d) \<and> py_attr x ''choices'' = Some choices
        \<and> fc_try str_of x = Some r \<and> has_tool_calls r \<longrightarrow>
      fc_parse_tool_calls str_of x = r
      \<and> (\<exists>choice message sdk_calls items entries.
            py_first choices = Some choice
          \<and> py_attr choice ''message'' = Some message
          \<and> py_attr message ''tool_calls'' = Some sdk_calls
          \<and> py_iter sdk_calls = Some items
          \<and> tool_calls r = PList entries
          \<and> length entries = length items
          \<and> (\<forall>k < length items. \<exists>f. py_attr (items ! k) ''function'' = Some f \<and>
                entries ! k =
                  PDict [(''id'', the (py_attr (items ! k) ''id'')),
                         (''type'', the (py_attr (items ! k) ''type'')),
                         (''function'', PDict [(''name'', the (py_attr f ''name'')),
                                                (''arguments'', the (py_attr f ''arguments''))])])))"
proof (intro conjI allI impI)
  fix d r
  assume a: "x = PDict d \<and> fc_try str_of x = Some r"
  then show "fc_parse_tool_calls str_of x = r"
    by (auto simp: fc_parse_tool_calls_def)
  from a show "\<exists>choices choice message.
            py_get x ''choices'' (PList [PDict []]) = Some choices
          \<and> py_first choices = Some choice
          \<and> py_get choice ''message'' (PDict []) = Some message
          \<and> py_get message ''tool_calls'' (PList []) = Some (tool_calls r)"
    by (auto simp: fc_try_def split: bind_splits dest!: fc_finish_calls)
  assume "has_tool_calls r"
  with a show "\<exists>items. py_iter (tool_calls r) = Some items \<and> list_all fc_loggable items"
    by (auto simp: fc_try_def split: bind_splits dest: fc_finish_loggable)
next
  fix choices r
  assume a: "(\<forall>d. x \<noteq> PDict d) \<and> py_attr x ''choices'' = Some choices
        \<and> fc_try str_of x = Some r \<and> has_tool_calls r"
  then show "fc_parse_tool_calls str_of x = r"
    by (auto simp: fc_parse_tool_calls_def)
  from a obtain a' where x: "x = PObj a'"
    by (cases x) auto
  from a x obtain choice message calls where
    c: "py_first choices = Some choice" and m: "py_attr choice ''message'' = Some message"
    and calls: "fc_convert_all (fc_sdk_calls message) = Some calls"
    and fin: "fc_finish calls (fc_sdk_content message) = Some r"
    by (auto simp: fc_try_def split: bind_splits)
  from fin have tr: "tool_calls r = calls" by (rule fc_finish_calls)
  from fin a have ne: "calls \<noteq> PList []"
    by (auto simp: fc_finish_def split: bind_splits if_splits)
  have "py_truthy (fc_sdk_calls message) \<or> fc_sdk_calls message = PList []"
    by (simp add: fc_sdk_calls_def Let_def)
  with calls ne have truthy: "py_truthy (fc_sdk_calls message)"
    by (auto simp: fc_convert_all_def split: if_splits)
  then obtain sdk_calls where s: "py_attr message ''tool_calls'' = Some sdk_calls"
    and sc: "fc_sdk_calls message = sdk_calls"
    by (auto simp: fc_sdk_calls_def Let_def split: option.splits if_splits)
  from calls truthy sc obtain items entries where it: "py_iter sdk_calls = Some items"
    and th: "those (map fc_convert items) = Some entries" and ce: "calls = PList entries"
    by (auto simp: fc_convert_all_def split: bind_splits)
  from those_map_Some [OF th] have len: "length entries = length items"
    and each: "\<forall>k < length items. fc_convert (items ! k) = Some (entries ! k)"
    by simp_all
  have "\<forall>k < length items. \<exists>f. py_attr (items ! k) ''function'' = Some f \<and>
                entries ! k =
                  PDict [(''id'', the (py_attr (items ! k) ''id'')),
                         (''type'', the (py_attr (items ! k) ''type'')),
                         (''function'', PDict [(''name'', the (py_attr f ''name'')),
                                                (''arguments'', the (py_attr f ''arguments''))])]"
    using each fc_convert_shape by blast
  with c m s it tr ce len
  show "\<exists>choice message sdk_calls items entries.
            py_first choices = Some choice
          \<and> py_attr choice ''message'' = Some message
          \<and> py_attr message ''tool_calls'' = Some sdk_calls
          \<and> py_iter sdk_calls = Some items
          \<and> tool_calls r = PList entries
          \<and> length entries = length items
          \<and> (\<forall>k < length items. \<exists>f. py_attr (items ! k) ''function'' = Some f \<and>
                entries ! k =
                  PDict [(''id'', the (py_attr (items ! k) ''id'')),
                         (''type'', the (py_attr (items ! k) ''type'')),
                         (''function'', PDict [(''name'', the (py_attr f ''name'')),
                                                (''arguments'', the (py_attr f ''arguments''))])])"
    by blast
qed

theorem fc_invocations_as_received_witness:
  "fc_try (\<lambda>v. []) (PDict [(''choices'', PList [PDict [(''message'',
       PDict [(''tool_calls'', PList [PDict [(''function'', PDict [(''name'', PStr ''f'')])]])])]])])
     = Some \<lparr>tool_calls = PList [PDict [(''function'', PDict [(''name'', PStr ''f'')])]],
             raw_response = PStr [], has_tool_calls = True, needs_continuation = True\<rparr>
   \<and> fc_parse_tool_calls (\<lambda>v. []) (PDict [(''choices'', PList [PDict [(''message'',
       PDict [(''tool_calls'', PList [PDict [(''function'', PDict [(''name'', PStr ''f'')])]])])]])])
     = \<lparr>tool_calls = PList [PDict [(''function'', PDict [(''name'', PStr ''f'')])]],
        raw_response = PStr [], has_tool_calls = True, needs_continuation = True\<rparr>
   \<and> fc_try (\<lambda>v. []) (PObj [(''choices'', PList [PObj [(''message'',
       PObj [(''tool_calls'', PList [PObj [(''id'', PStr ''c1''), (''type'', PStr ''function''),
          (''function'', PObj [(''name'', PStr ''f''), (''arguments'', PStr ''{}'')])]])])]])])
     = Some \<lparr>tool_calls = PList [PDict [(''id'', PStr ''c1''), (''type'', PStr ''function''),
          (''function'', PDict [(''name'', PStr ''f''), (''arguments'', PStr ''{}'')])]],
             raw_response = PStr [], has_tool_calls = True, needs_continuation = True\<rparr>
   \<and> fc_parse_tool_calls (\<lambda>v. []) (PObj [(''choices'', PList [PObj [(''message'',
       PObj [(''tool_calls'', PList [PObj [(''id'', PStr ''c1''), (''type'', PStr ''function''),
          (''function'', PObj [(''name'', PStr ''f''), (''arguments'', PStr ''{}'')])]])])]])])
     = \<lparr>tool_calls = PList [PDict [(''id'', PStr ''c1''), (''type'', PStr ''function''),
          (''function'', PDict [(''name'', PStr ''f''), (''arguments'', PStr ''{}'')])]],
             raw_response = PStr [], has_tool_calls = True, needs_continuation = True\<rparr>"
proof -
  let ?d = "PDict [(''choices'', PList [PDict [(''message'',
       PDict [(''tool_calls'', PList [PDict [(''function'', PDict [(''name'', PStr ''f'')])]])])]])]"
  let ?o = "PObj [(''choices'', PList [PObj [(''message'',
       PObj [(''tool_calls'', PList [PObj [(''id'', PStr ''c1''), (''type'', PStr ''function''),
          (''function'', PObj [(''name'', PStr ''f''), (''arguments'', PStr ''{}'')])]])])]])]"
  have d: "fc_try (\<lambda>v. []) ?d
     = Some \<lparr>tool_calls = PList [PDict [(''function'', PDict [(''name'', PStr ''f'')])]],
             raw_response = PStr [], has_tool_calls = True, needs_continuation = True\<rparr>"
    by code_simp
  have o: "fc_try (\<lambda>v. []) ?o
     = Some \<lparr>tool_calls = PList [PDict [(''id'', PStr ''c1''), (''type'', PStr ''function''),
          (''function'', PDict [(''name'', PStr ''f''), (''arguments'', PStr ''{}'')])]],
             raw_response = PStr [], has_tool_calls = True, needs_continuation = True\<rparr>"
    by code_simp
  have oc: "py_attr ?o ''choices'' \<noteq> None"
    by simp
  from fc_invocations_as_received [of ?d "\<lambda>v. []"] d
  have 1: "fc_parse_tool_calls (\<lambda>v. []) ?d
     = \<lparr>tool_calls = PList [PDict [(''function'', PDict [(''name'', PStr ''f'')])]],
             raw_response = PStr [], has_tool_calls = True, needs_continuation = True\<rparr>"
    by blast
  from fc_invocations_as_received [of ?o "\<lambda>v. []"] o oc
  have 2: "fc_parse_tool_calls (\<lambda>v. []) ?o
     = \<lparr>tool_calls = PList [PDict [(''id'', PStr ''c1''), (''type'', PStr ''function''),
          (''function'', PDict [(''name'', PStr ''f''), (''arguments'', PStr ''{}'')])]],
             raw_response = PStr [], has_tool_calls = True, needs_continuation = True\<rparr>"
    by auto
  from d o 1 2 show ?thesis by blast
qed

text \<open>
  The claim as stated fails: a mapping-shaped response whose tool call carries its
  arguments as a mapping comes back with that mapping, not with a JSON-encoded string.
\<close>

theorem fc_arguments_raw_mapping:
  "fc_parse_tool_calls (\<lambda>v. []) (PDict [(''choices'', PList [PDict [(''message'',
       PDict [(''tool_calls'', PList [PDict [(''id'', PStr ''c1''), (''type'', PStr ''function''),
          (''function'', PDict [(''name'', PStr ''f''),
                                (''arguments'', PDict [(''x'', PInt 1)])])]])])]])])
     = \<lparr>tool_calls = PList [PDict [(''id'', PStr ''c1''), (''type'', PStr ''function''),
          (''function'', PDict [(''name'', PStr ''f''),
                                (''arguments'', PDict [(''x'', PInt 1)])])]],
        raw_response = PStr [], has_tool_calls = True, needs_continuation = True\<rparr>
   \<and> \<not> normalized_invocation (PDict [(''id'', PStr ''c1''), (''type'', PStr ''function''),
          (''function'', PDict [(''name'', PStr ''f''),
                                (''arguments'', PDict [(''x'', PInt 1)])])])"
  by code_simp

subsection \<open>The capability cache\<close>

lemma get_adapter_hit:
  assumes "capability_cache u i = Some c" "now_lookup clk - tested_at c \<le> cache_ttl u"
  shows "get_adapter u clk i p =
    (if supports_function_calling c then FUNCTION_CALLING else PROMPT_INJECTION, u, 0)"
  using assms by (simp add: get_adapter_def get_cached_capability_def split: option.splits)



lemma get_adapter_probed:
  assumes "get_adapter u clk i (Some p) = (a, u', n)"
  shows "capability_cache u' i \<noteq> None \<and> n \<le> 1"
  using assms
  by (auto simp: get_adapter_def get_cached_capability_def detect_capability_def Let_def
      split: option.splits if_splits prod.splits)

text \<open>
  C8.  Two successive \<^verbatim>\<open>get_adapter\<close> calls for the same id, each with a probe function,
  the second looking the cache up within the TTL of the record the first one left: the
  second awaits no probe, changes nothing and selects the adapter of that record, so
  the probe is awaited at most once in all.
\<close>

theorem cache_reuse:
  assumes "get_adapter u c1 i (Some p1) = (a1, u1, n1)"
    and "get_adapter u1 c2 i (Some p2) = (a2, u2, n2)"
    and "\<forall>cap. capability_cache u1 i = Some cap \<longrightarrow> now_lookup c2 - tested_at cap \<le> cache_ttl u1"
  shows "n1 + n2 \<le> 1 \<and> n2 = 0 \<and> u2 = u1 \<and> capability_cache u1 i \<noteq> None
    \<and> (\<forall>cap. capability_cache u1 i = Some cap \<longrightarrow>
          a2 = (if supports_function_calling cap then FUNCTION_CALLING else PROMPT_INJECTION))"
proof -
  from get_adapter_probed [OF assms(1)] obtain cap where
    cap: "capability_cache u1 i = Some cap" and n1: "n1 \<le> 1"
    by auto
  from assms(3) cap have "now_lookup c2 - tested_at cap \<le> cache_ttl u1" by simp
  from get_adapter_hit [OF cap this, of "Some p2"] assms(2) cap n1 show ?thesis
    by simp
qed

theorem cache_reuse_witness:
  "get_adapter \<lparr>capability_cache = Map.empty, cache_ttl = 86400000000, enable_auto_fallback = True\<rparr>
      \<lparr>now_lookup = 0, now_probe = 5, probe_ms = 1, now_degrade = 0\<rparr> ''api''
      (Some (Returned (PDict [(''choices'', PList [PDict [(''message'', PDict [(''tool_calls'', PList [])])]])])))
    = (FUNCTION_CALLING,
       \<lparr>capability_cache = [''api'' \<mapsto> \<lparr>supports_function_calling = True, tested_at = 5,
            test_duration_ms = 1, error_message = None\<rparr>],
        cache_ttl = 86400000000, enable_auto_fallback = True\<rparr>, 1)
   \<and> get_adapter
      \<lparr>capability_cache = [''api'' \<mapsto> \<lparr>supports_function_calling = True, tested_at = 5,
            test_duration_ms = 1, error_message = None\<rparr>],
        cache_ttl = 86400000000, enable_auto_fallback = True\<rparr>
      \<lparr>now_lookup = 86400000005, now_probe = 86400000009, probe_ms = 1, now_degrade = 0\<rparr> ''api''
      (Some (Raised ''down''))
    = (FUNCTION_CALLING,
       \<lparr>capability_cache = [''api'' \<mapsto> \<lparr>supports_function_calling = True, tested_at = 5,
            test_duration_ms = 1, error_message = None\<rparr>],
        cache_ttl = 86400000000, enable_auto_fallback = True\<rparr>, 0)"
proof -
  let ?u = "\<lparr>capability_cache = Map.empty, cache_ttl = 86400000000, enable_auto_fallback = True\<rparr>"
  let ?c1 = "\<lparr>now_lookup = 0, now_probe = 5, probe_ms = 1, now_degrade = 0\<rparr>"
  let ?c2 = "\<lparr>now_lookup = 86400000005, now_probe = 86400000009, probe_ms = 1, now_degrade = 0\<rparr>"
  let ?p1 = "Returned (PDict [(''choices'', PList [PDict [(''message'', PDict [(''tool_calls'', PList [])])]])])"
  let ?cap = "\<lparr>supports_function_calling = True, tested_at = 5,
            test_duration_ms = 1, error_message = None\<rparr>"
  let ?u1 = "\<lparr>capability_cache = [''api'' \<mapsto> ?cap],
        cache_ttl = 86400000000, enable_auto_fallback = True\<rparr>"
  have a: "get_adapter ?u ?c1 ''api'' (Some ?p1) = (FUNCTION_CALLING, ?u1, 1)"
    by (simp add: get_adapter_def get_cached_capability_def detect_capability_def
        is_function_calling_response_def Let_def)
  obtain a2 u2 n2 where b: "get_adapter ?u1 ?c2 ''api'' (Some (Raised ''down'')) = (a2, u2, n2)"
    by (cases "get_adapter ?u1 ?c2 ''api'' (Some (Raised ''down''))") auto
  have h: "\<forall>cap. capability_cache ?u1 ''api'' = Some cap \<longrightarrow>
      now_lookup ?c2 - tested_at cap \<le> cache_ttl ?u1"
    by simp
  from cache_reuse [OF a b h] have "n2 = 0" "u2 = ?u1" "a2 = FUNCTION_CALLING"
    by simp_all
  with a b show ?thesis by simp
qed

subsection \<open>Degrading\<close>






lemma get_adapter_widens:
  assumes "get_adapter u clk j p = (a, u', n)" "capability_cache u' i = Some c"
    "supports_function_calling c"
  shows "capability_cache u i = Some c \<or>
     (j = i \<and> n = 1 \<and> (\<exists>result. p = Some (Returned result) \<and> is_function_calling_response result
        \<and> c = \<lparr>supports_function_calling = True, tested_at = now_probe clk,
                test_duration_ms = probe_ms clk, error_message = None\<rparr>))"
  using assms
  by (auto simp: get_adapter_def get_cached_capability_def detect_capability_def Let_def
      split: option.splits if_splits prod.splits outcome.splits)

lemma call_with_fallback_widens:
  assumes "call_with_fallback ev u clk j tools msg f p = (r, u', rep)"
    "capability_cache u' i = Some c" "supports_function_calling c"
  shows "capability_cache u i = Some c \<or>
     (j = i \<and> probe_count rep = 1
      \<and> (\<exists>result. p = Some (Returned result) \<and> is_function_calling_response result
        \<and> c = \<lparr>supports_function_calling = True, tested_at = now_probe clk,
                test_duration_ms = probe_ms clk, error_message = None\<rparr>))"
proof -
  obtain a u1 n where g: "get_adapter u clk j p = (a, u1, n)"
    by (cases "get_adapter u clk j p") auto
  from assms g have "capability_cache u1 i = Some c" "probe_count rep = n"
    by (auto simp: call_with_fallback_def split: outcome.splits if_splits)
  with get_adapter_widens [OF g _ assms(3)] show ?thesis by auto
qed

lemma call_with_fallback_degrades:
  assumes "call_with_fallback ev u clk j tools msg f p = (r, u', rep)"
    "paths rep = [FUNCTION_CALLING, PROMPT_INJECTION]"
  shows "\<exists>cap. capability_cache u' j = Some cap \<and> \<not> supports_function_calling cap
     \<and> tested_at cap = now_degrade clk"
proof -
  obtain a u1 n where g: "get_adapter u clk j p = (a, u1, n)"
    by (cases "get_adapter u clk j p") auto
  with assms show ?thesis
    by (auto simp: call_with_fallback_def split: outcome.splits if_splits)
qed



text \<open>
  C7.  In one operation, a record with \<^verbatim>\<open>supports_function_calling=True\<close> is in the
  cache afterwards only if the same record was there before or if the operation awaited
  the probe for that id and \<^verbatim>\<open>_detect_capability\<close> stored it.  The degrade of
  \<^verbatim>\<open>call_with_fallback\<close> leaves a record with \<^verbatim>\<open>supports_function_calling=False\<close>.
\<close>

theorem only_probe_widens:
  assumes "step ev u opn = (u', ob)"
  shows "(\<forall>i c. capability_cache u' i = Some c \<and> supports_function_calling c \<longrightarrow>
       capability_cache u i = Some c
       \<or> (\<exists>result clk.
            ((\<exists>a. opn = GetAdapter i (Some (Returned result)) clk \<and> ob = Adapter a 1)
             \<or> (\<exists>tools msg f r rep. opn = CallWithFallback i tools msg f (Some (Returned result)) clk
                   \<and> ob = Called r rep \<and> probe_count rep = 1))
          \<and> is_function_calling_response result
          \<and> c = \<lparr>supports_function_calling = True, tested_at = now_probe clk,
                  test_duration_ms = probe_ms clk, error_message = None\<rparr>))
    \<and> (\<forall>j tools msg f p clk r rep.
          opn = CallWithFallback j tools msg f p clk \<and> ob = Called r rep
          \<and> paths rep = [FUNCTION_CALLING, PROMPT_INJECTION] \<longrightarrow>
          (\<exists>cap. capability_cache u' j = Some cap \<and> \<not> supports_function_calling cap
             \<and> tested_at cap = now_degrade clk))"
proof (intro conjI allI impI)
  fix i c
  assume c: "capability_cache u' i = Some c \<and> supports_function_calling c"
  show "capability_cache u i = Some c
       \<or> (\<exists>result clk.
            ((\<exists>a. opn = GetAdapter i (Some (Returned result)) clk \<and> ob = Adapter a 1)
             \<or> (\<exists>tools msg f r rep. opn = CallWithFallback i tools msg f (Some (Returned result)) clk
                   \<and> ob = Called r rep \<and> probe_count rep = 1))
          \<and> is_function_calling_response result
          \<and> c = \<lparr>supports_function_calling = True, tested_at = now_probe clk,
                  test_duration_ms = probe_ms clk, error_message = None\<rparr>)"
  proof (cases opn)
    case (GetAdapter j p clk)
    obtain a u1 n where g: "get_adapter u clk j p = (a, u1, n)"
      by (cases "get_adapter u clk j p") auto
    with assms GetAdapter have e: "u' = u1" "ob = Adapter a n" by (simp_all add: step_def)
    show ?thesis
    proof (cases "capability_cache u i = Some c")
      case True
      then show ?thesis by simp
    next
      case False
      with get_adapter_widens [OF g] c e obtain result where
        r: "j = i" "n = 1" "p = Some (Returned result)" "is_function_calling_response result"
          "c = \<lparr>supports_function_calling = True, tested_at = now_probe clk,
                  test_duration_ms = probe_ms clk, error_message = None\<rparr>"
        by auto
      with e GetAdapter show ?thesis by blast
    qed
  next
    case (CallWithFallback j tools msg f p clk)
    obtain r u1 rep where g: "call_with_fallback ev u clk j tools msg f p = (r, u1, rep)"
      by (cases "call_with_fallback ev u clk j tools msg f p") auto
    with assms CallWithFallback have e: "u' = u1" "ob = Called r rep" by (simp_all add: step_def)
    show ?thesis
    proof (cases "capability_cache u i = Some c")
      case True
      then show ?thesis by simp
    next
      case False
      with call_with_fallback_widens [OF g] c e obtain result where
        r: "j = i" "probe_count rep = 1" "p = Some (Returned result)"
          "is_function_calling_response result"
          "c = \<lparr>supports_function_calling = True, tested_at = now_probe clk,
                  test_duration_ms = probe_ms clk, error_message = None\<rparr>"
        by auto
      with e CallWithFallback show ?thesis by blast
    qed
  next
    case (ClearCache j)
    with assms c show ?thesis
      by (cases j) (auto simp: step_def clear_cache_def split: if_splits)
  qed
next
  fix j tools msg f p clk r rep
  assume a: "opn = CallWithFallback j tools msg f p clk \<and> ob = Called r rep
          \<and> paths rep = [FUNCTION_CALLING, PROMPT_INJECTION]"
  with assms have "call_with_fallback ev u clk j tools msg f p = (r, u', rep)"
    by (auto simp: step_def split: prod.splits)
  from call_with_fallback_degrades [OF this] a
  show "\<exists>cap. capability_cache u' j = Some cap \<and> \<not> supports_function_calling cap
             \<and> tested_at cap = now_degrade clk"
    by simp
qed

theorem only_probe_widens_witness:
  "step \<lparr>json_dumps_loads = id, py_str = (\<lambda>v. []), format_tools_for_prompt = (\<lambda>t m. Returned m)\<rparr>
       \<lparr>capability_cache = Map.empty, cache_ttl = 86400000000, enable_auto_fallback = True\<rparr>
       (GetAdapter ''api''
          (Some (Returned (PDict [(''choices'', PList [PDict [(''message'',
              PDict [(''tool_calls'', PList [])])]])])))
          \<lparr>now_lookup = 0, now_probe = 5, probe_ms = 1, now_degrade = 0\<rparr>)
     = (\<lparr>capability_cache = [''api'' \<mapsto> \<lparr>supports_function_calling = True, tested_at = 5,
            test_duration_ms = 1, error_message = None\<rparr>],
         cache_ttl = 86400000000, enable_auto_fallback = True\<rparr>,
        Adapter FUNCTION_CALLING 1)
   \<and> is_function_calling_response (PDict [(''choices'', PList [PDict [(''message'',
              PDict [(''tool_calls'', PList [])])]])])"
proof -
  let ?ev = "\<lparr>json_dumps_loads = id, py_str = (\<lambda>v. []), format_tools_for_prompt = (\<lambda>t m. Returned m)\<rparr>"
  let ?u = "\<lparr>capability_cache = Map.empty, cache_ttl = 86400000000, enable_auto_fallback = True\<rparr>"
  let ?resp = "PDict [(''choices'', PList [PDict [(''message'',
              PDict [(''tool_calls'', PList [])])]])]"
  let ?op = "GetAdapter ''api'' (Some (Returned ?resp))
          \<lparr>now_lookup = 0, now_probe = 5, probe_ms = 1, now_degrade = 0\<rparr>"
  let ?c = "\<lparr>supports_function_calling = True, tested_at = 5,
            test_duration_ms = 1, error_message = None\<rparr>"
  let ?u' = "\<lparr>capability_cache = [''api'' \<mapsto> ?c],
         cache_ttl = 86400000000, enable_auto_fallback = True\<rparr>"
  have fc: "is_function_calling_response ?resp = True"
    by code_simp
  have s: "step ?ev ?u ?op = (?u', Adapter FUNCTION_CALLING 1)"
    by (simp add: step_def get_adapter_def get_cached_capability_def detect_capability_def
        fc Let_def)
  have "capability_cache ?u' ''api'' = Some ?c \<and> supports_function_calling ?c"
    by simp
  from only_probe_widens [OF s, THEN conjunct1, rule_format, OF this]
  have "is_function_calling_response ?resp"
    by simp
  with s show ?thesis by simp
qed

end
